theory Spec2Isabelle
  imports Complex_Main "HOL-Library.AList"
begin

section \<open>Data model (src/unnamed/part_004: types, src/src/chat-message.ts)\<close>

text \<open>
  JSON payloads whose shape the code does not inspect (tool inputs) are values of
  \<open>json\<close>. JavaScript numbers that count things (tokens, timestamps in milliseconds)
  are \<open>int\<close>; the cost in dollars is a \<open>real\<close> that the code only copies.
\<close>

datatype json =
    JNull
  | JBool bool
  | JNum int
  | JStr string
  | JArr "json list"
  | JObj "(string \<times> json) list"

text \<open>\<open>ToolResultContentBlock\<close>: \<open>content\<close> is a string or a list of text blocks.\<close>

datatype tool_result_content = ResultString string | ResultTexts "string list"

record ToolResultContentBlock =
  tool_use_id :: string
  result_content :: tool_result_content
  is_error :: bool

text \<open>
  \<open>MessageContentBlock\<close>, a union discriminated by its \<open>type\<close> field. Image and document
  sources are \<open>(type, media_type, data)\<close>; \<open>ToolUse id name input\<close>.
\<close>

datatype MessageContentBlock =
    TextBlock string
  | ImageBlock string string string
  | DocumentBlock string string string "string option"
  | ToolUse string string json
  | Thinking "string option"
  | ToolResult ToolResultContentBlock
  | OtherBlock string

text \<open>\<open>SDKMessage["type"]\<close>, which is also \<open>ChatMessageType\<close>.\<close>

datatype ChatMessageType = User | Assistant | System | Result | StreamEvent | OtherType string

text \<open>
  \<open>class ChatMessagePart\<close>: a read-only content block and the one mutable slot
  \<open>toolResultData\<close>, read by the getter \<open>toolResult\<close> and written by \<open>setToolResult\<close>.
\<close>

record ChatMessagePart =
  content :: MessageContentBlock
  toolResultData :: "ToolResultContentBlock option"

definition newChatMessagePart :: "MessageContentBlock \<Rightarrow> ChatMessagePart" where
  "newChatMessagePart c = \<lparr>content = c, toolResultData = None\<rparr>"

definition toolResult :: "ChatMessagePart \<Rightarrow> ToolResultContentBlock option" where
  "toolResult part = toolResultData part"

definition setToolResult :: "ToolResultContentBlock \<Rightarrow> ChatMessagePart \<Rightarrow> ChatMessagePart" where
  "setToolResult r part = part\<lparr>toolResultData := Some r\<rparr>"

text \<open>
  \<open>class ChatMessage\<close>. The fields \<open>type\<close>, \<open>content\<close>, \<open>timestamp\<close>, \<open>id\<close> of the source are
  \<open>mtype\<close>, \<open>parts\<close>, \<open>timestamp\<close>, \<open>mid\<close>. \<open>ref\<close> is the identity of the JavaScript object:
  \<open>a !== b\<close> and \<open>Array.includes\<close> on messages compare \<open>ref\<close>. A list of messages holds each
  object at most once in the program (every message is made by \<open>new\<close> and pushed once), so
  an in-place mutation of a message is the update of its position in the list.
\<close>

record ChatMessage =
  ref :: nat
  mtype :: ChatMessageType
  parts :: "ChatMessagePart list"
  timestamp :: int
  mid :: string

definition isEmpty :: "ChatMessage \<Rightarrow> bool" where
  "isEmpty m =
     (if mtype m = System then False
      else (parts m = [] \<or> list_all (\<lambda>part. case content part of ToolResult _ \<Rightarrow> True | _ \<Rightarrow> False) (parts m)))"

text \<open>
  \<open>SDKMessage\<close>, the update fragment, discriminated by \<open>type\<close>. Every fragment has the
  optional \<open>uuid\<close>, the raw \<open>timestamp\<close> field and \<open>session_id\<close>. The body of a user or
  assistant fragment is \<open>message.content\<close>, a string or an array of blocks.
\<close>

datatype raw_timestamp = TsAbsent | TsNumber int | TsString string | TsOther

record sdk_header =
  uuid :: "string option"
  raw_ts :: raw_timestamp
  session_id :: string

datatype sdk_content = StringContent string | BlockContent "MessageContentBlock list"

record sdk_usage =
  input_tokens :: int
  output_tokens :: int
  cache_creation_input_tokens :: "int option"
  cache_read_input_tokens :: "int option"

text \<open>
  \<open>SDKSystem h subtype model tools permissionMode\<close>;
  \<open>SDKResult h total_cost_usd modelUsage\<close>, where \<open>modelUsage\<close> maps a model name to
  its optional \<open>contextWindow\<close>.
\<close>

datatype SDKMessage =
    SDKUser sdk_header sdk_content
  | SDKAssistant sdk_header sdk_content "sdk_usage option"
  | SDKSystem sdk_header string "string option" "string list option" "string option"
  | SDKResult sdk_header "real option" "(string \<times> int option) list option"
  | SDKStreamEvent sdk_header
  | SDKOther string sdk_header

fun sdk_type :: "SDKMessage \<Rightarrow> ChatMessageType" where
  "sdk_type (SDKUser h c) = User"
| "sdk_type (SDKAssistant h c u) = Assistant"
| "sdk_type (SDKSystem h st mo tools pm) = System"
| "sdk_type (SDKResult h cost mu) = Result"
| "sdk_type (SDKStreamEvent h) = StreamEvent"
| "sdk_type (SDKOther t h) = OtherType t"

fun sdk_hdr :: "SDKMessage \<Rightarrow> sdk_header" where
  "sdk_hdr (SDKUser h c) = h"
| "sdk_hdr (SDKAssistant h c u) = h"
| "sdk_hdr (SDKSystem h st mo tools pm) = h"
| "sdk_hdr (SDKResult h cost mu) = h"
| "sdk_hdr (SDKStreamEvent h) = h"
| "sdk_hdr (SDKOther t h) = h"

text \<open>
  What the JavaScript runtime supplies: \<open>Number(s)\<close> when it is finite, \<open>Date.parse(s)\<close>
  when it is not NaN, and \<open>Date.now()\<close>.
\<close>

record js_runtime =
  Number_finite :: "string \<Rightarrow> int option"
  Date_parse :: "string \<Rightarrow> int option"
  Date_now :: int

text \<open>
  What one new message takes from its environment: the identity of the object made by
  \<open>new ChatMessage\<close>, the value of \<open>nanoid()\<close> and the value of
  \<open>Math.random().toString(36).slice(2)\<close>.
\<close>

record fresh_message =
  new_ref :: nat
  new_nanoid :: string
  new_random :: string

section \<open>Rendering a fragment (chat-message.ts, lines 84-151)\<close>

definition createTextMessage :: "nat \<Rightarrow> ChatMessageType \<Rightarrow> string \<Rightarrow> string \<Rightarrow> int \<Rightarrow> ChatMessage" where
  "createTextMessage r t text i ts =
     \<lparr>ref = r, mtype = t, parts = [newChatMessagePart (TextBlock text)], timestamp = ts, mid = i\<rparr>"

definition extractMessageUuid :: "fresh_message \<Rightarrow> SDKMessage \<Rightarrow> string" where
  "extractMessageUuid fr message =
     (case uuid (sdk_hdr message) of Some u \<Rightarrow> u | None \<Rightarrow> new_nanoid fr)"

definition parse_timestamp_string :: "js_runtime \<Rightarrow> string \<Rightarrow> int option" where
  "parse_timestamp_string rt s =
     (case Number_finite rt s of
        Some numeric \<Rightarrow> Some numeric
      | None \<Rightarrow> Date_parse rt s)"

definition extractMessageTimestamp :: "js_runtime \<Rightarrow> SDKMessage \<Rightarrow> int option" where
  "extractMessageTimestamp rt message =
     (case raw_ts (sdk_hdr message) of
        TsNumber n \<Rightarrow> Some n
      | TsString s \<Rightarrow> parse_timestamp_string rt s
      | _ \<Rightarrow> None)"

definition extractTimestamp :: "js_runtime \<Rightarrow> raw_timestamp \<Rightarrow> int option" where
  "extractTimestamp rt v =
     (case v of
        TsNumber n \<Rightarrow> Some n
      | TsString s \<Rightarrow> parse_timestamp_string rt s
      | _ \<Rightarrow> None)"

definition or_now :: "js_runtime \<Rightarrow> int option \<Rightarrow> int" where
  "or_now rt ts = (case ts of Some t \<Rightarrow> t | None \<Rightarrow> Date_now rt)"

fun createChatMessageFromSDKMessage :: "js_runtime \<Rightarrow> fresh_message \<Rightarrow> SDKMessage \<Rightarrow> ChatMessage option" where
  "createChatMessageFromSDKMessage rt fr message =
     (let messageId = extractMessageUuid fr message;
          ts = extractMessageTimestamp rt message
      in case message of
           SDKUser h (StringContent s) \<Rightarrow>
             Some (createTextMessage (new_ref fr) User s messageId (or_now rt ts))
         | SDKUser h (BlockContent bs) \<Rightarrow>
             Some \<lparr>ref = new_ref fr, mtype = User, parts = map newChatMessagePart bs,
                   timestamp = or_now rt ts, mid = messageId\<rparr>
         | SDKAssistant h (StringContent s) u \<Rightarrow>
             Some (createTextMessage (new_ref fr) Assistant s messageId (or_now rt ts))
         | SDKAssistant h (BlockContent bs) u \<Rightarrow>
             Some \<lparr>ref = new_ref fr, mtype = Assistant, parts = map newChatMessagePart bs,
                   timestamp = or_now rt ts, mid = messageId\<rparr>
         | SDKStreamEvent h \<Rightarrow> None
         | _ \<Rightarrow>
             Some \<lparr>ref = new_ref fr, mtype = sdk_type message, parts = [],
                   timestamp = or_now rt ts, mid = messageId\<rparr>)"

section \<open>The tool-result linker (chat-message.ts, lines 154-207 and 252-297)\<close>

text \<open>
  A \<open>ToolUseMatch\<close> is a message and one of its parts; here the position of the message in
  the array and the position of the part in the message.
\<close>

type_synonym ToolUseMatch = "nat \<times> nat"

definition is_tool_use_with_id :: "string \<Rightarrow> ChatMessagePart \<Rightarrow> bool" where
  "is_tool_use_with_id toolUseId part =
     (case content part of ToolUse i n inp \<Rightarrow> i = toolUseId | _ \<Rightarrow> False)"

text \<open>
  The inner loop of the first pass, from part \<open>j\<close> on: at the first part that is a tool use
  with the id, return its position when the slot is empty and \<open>break\<close> (here \<open>None\<close>, as
  when the loop runs out) when it is not.
\<close>

fun scan_unanswered :: "string \<Rightarrow> ChatMessagePart list \<Rightarrow> nat \<Rightarrow> nat option" where
  "scan_unanswered toolUseId [] j = None"
| "scan_unanswered toolUseId (part # rest) j =
     (if is_tool_use_with_id toolUseId part
      then (if toolResult part = None then Some j else None)
      else scan_unanswered toolUseId rest (Suc j))"

text \<open>The inner loop of the fallback pass: the first part that is a tool use with the id.\<close>

fun scan_any :: "string \<Rightarrow> ChatMessagePart list \<Rightarrow> nat \<Rightarrow> nat option" where
  "scan_any toolUseId [] j = None"
| "scan_any toolUseId (part # rest) j =
     (if is_tool_use_with_id toolUseId part then Some j
      else scan_any toolUseId rest (Suc j))"

text \<open>
  The outer loops, \<open>for (index = messages.length - 1; index >= 0; index -= 1)\<close>: the
  argument \<open>Suc index\<close> is the number of messages still to visit. An array of the
  declared type \<open>ChatMessage[]\<close> has no undefined element, so the guard \<open>!message\<close>
  never fires.
\<close>

fun first_pass :: "ChatMessage list \<Rightarrow> string \<Rightarrow> nat \<Rightarrow> ToolUseMatch option" where
  "first_pass messages toolUseId 0 = None"
| "first_pass messages toolUseId (Suc index) =
     (let message = messages ! index in
      if mtype message \<noteq> Assistant then first_pass messages toolUseId index
      else case scan_unanswered toolUseId (parts message) 0 of
             Some j \<Rightarrow> Some (index, j)
           | None \<Rightarrow> first_pass messages toolUseId index)"

fun fallback_pass :: "ChatMessage list \<Rightarrow> string \<Rightarrow> nat \<Rightarrow> ToolUseMatch option" where
  "fallback_pass messages toolUseId 0 = None"
| "fallback_pass messages toolUseId (Suc index) =
     (let message = messages ! index in
      if mtype message \<noteq> Assistant then fallback_pass messages toolUseId index
      else case scan_any toolUseId (parts message) 0 of
             Some j \<Rightarrow> Some (index, j)
           | None \<Rightarrow> fallback_pass messages toolUseId index)"

definition findMostRecentToolUse :: "ChatMessage list \<Rightarrow> string \<Rightarrow> ToolUseMatch option" where
  "findMostRecentToolUse messages toolUseId =
     (case first_pass messages toolUseId (length messages) of
        Some m \<Rightarrow> Some m
      | None \<Rightarrow> fallback_pass messages toolUseId (length messages))"

text \<open>\<open>match.part.setToolResult(block)\<close>: the part at \<open>(i, j)\<close> is mutated in place.\<close>

definition set_result_at :: "ChatMessage list \<Rightarrow> ToolUseMatch \<Rightarrow> ToolResultContentBlock \<Rightarrow> ChatMessage list" where
  "set_result_at messages m block =
     (case m of (i, j) \<Rightarrow>
        messages[i := (messages ! i)\<lparr>parts := (parts (messages ! i))[j := setToolResult block (parts (messages ! i) ! j)]\<rparr>])"

text \<open>
  \<open>ToolResultUpdate\<close> and \<open>AppendRenderableMessageResult\<close>. The two lists hold references
  to messages of the array; a reference is the \<open>ref\<close> of the object, and its read-only
  \<open>id\<close> is kept beside it since that is all a later reader takes from it.
\<close>

record message_ref =
  target_ref :: nat
  target_id :: string

definition ref_of :: "ChatMessage \<Rightarrow> message_ref" where
  "ref_of m = \<lparr>target_ref = ref m, target_id = mid m\<rparr>"

record ToolResultUpdate =
  tru_message :: message_ref
  toolUseId :: string
  tru_toolResult :: ToolResultContentBlock

record AppendRenderableMessageResult =
  addedMessage :: "ChatMessage option"
  updatedMessages :: "message_ref list"
  toolResultUpdates :: "ToolResultUpdate list"

text \<open>
  The state of the loop over the blocks of the incoming fragment: the array (whose
  messages are mutated), \<open>updatedMessages\<close> and \<open>toolResultUpdates\<close>.
\<close>

type_synonym link_state = "ChatMessage list \<times> message_ref list \<times> ToolResultUpdate list"

fun link_block :: "link_state \<Rightarrow> MessageContentBlock \<Rightarrow> link_state" where
  "link_block (messages, updated, updates) (ToolResult block) =
     (case findMostRecentToolUse messages (tool_use_id block) of
        Some m \<Rightarrow>
          (set_result_at messages m block,
           (if target_ref (ref_of (messages ! fst m)) \<in> set (map target_ref updated) then updated
            else updated @ [ref_of (messages ! fst m)]),
           updates @ [\<lparr>tru_message = ref_of (messages ! fst m),
                       toolUseId = tool_use_id block, tru_toolResult = block\<rparr>])
      | None \<Rightarrow> (messages, updated, updates))"
| "link_block st other = st"

fun link_blocks :: "link_state \<Rightarrow> MessageContentBlock list \<Rightarrow> link_state" where
  "link_blocks st [] = st"
| "link_blocks st (block # rest) = link_blocks (link_block st block) rest"

fun incoming_result_blocks :: "SDKMessage \<Rightarrow> MessageContentBlock list" where
  "incoming_result_blocks (SDKUser h (BlockContent bs)) = bs"
| "incoming_result_blocks other = []"

text \<open>
  \<open>appendRenderableMessage\<close> mutates the array it is given (the results it links, the
  message it pushes); the array after the call is the first component.
\<close>

definition appendRenderableMessage ::
  "js_runtime \<Rightarrow> fresh_message \<Rightarrow> ChatMessage list \<Rightarrow> SDKMessage \<Rightarrow> ChatMessage list \<times> AppendRenderableMessageResult" where
  "appendRenderableMessage rt fr messages incoming =
     (case link_blocks (messages, [], []) (incoming_result_blocks incoming) of
        (linked, updated, updates) \<Rightarrow>
          (case createChatMessageFromSDKMessage rt fr incoming of
             Some rendered \<Rightarrow>
               (linked @ [rendered],
                \<lparr>addedMessage = Some rendered, updatedMessages = updated, toolResultUpdates = updates\<rparr>)
           | None \<Rightarrow>
               (linked,
                \<lparr>addedMessage = None, updatedMessages = updated, toolResultUpdates = updates\<rparr>)))"

section \<open>The read-coalescer (chat-message.ts, lines 209-250 and 299-354)\<close>

definition isReadToolUse :: "ChatMessage \<Rightarrow> bool" where
  "isReadToolUse message =
     (if mtype message \<noteq> Assistant then False
      else list_ex (\<lambda>part. case content part of ToolUse i n inp \<Rightarrow> n = ''Read'' | _ \<Rightarrow> False)
             (parts message))"

definition hasSuccessfulToolResult :: "ChatMessage \<Rightarrow> bool" where
  "hasSuccessfulToolResult message =
     (if mtype message \<noteq> Assistant \<or> length (parts message) = 0 then False
      else case parts message of
             [] \<Rightarrow> False
           | firstPart # rest \<Rightarrow>
               (case toolResult firstPart of Some result \<Rightarrow> \<not> is_error result | None \<Rightarrow> False))"

text \<open>Decimal digits of a number, as the template literal prints \<open>messages.length\<close>.\<close>

fun string_of_nat :: "nat \<Rightarrow> string" where
  "string_of_nat n =
     (if n < 10 then [''0123456789'' ! n]
      else string_of_nat (n div 10) @ [''0123456789'' ! (n mod 10)])"

declare string_of_nat.simps [simp del]

definition is_tool_use_part :: "ChatMessagePart \<Rightarrow> bool" where
  "is_tool_use_part part = (case content part of ToolUse i n inp \<Rightarrow> True | _ \<Rightarrow> False)"

definition tool_use_input :: "ChatMessagePart \<Rightarrow> json" where
  "tool_use_input part = (case content part of ToolUse i n inp \<Rightarrow> inp | _ \<Rightarrow> JNull)"

definition fileReads :: "ChatMessage list \<Rightarrow> json list" where
  "fileReads messages =
     map (\<lambda>message. case find is_tool_use_part (parts message) of
                       Some toolUsePart \<Rightarrow> tool_use_input toolUsePart
                     | None \<Rightarrow> JNull) messages"

definition createCoalescedReadMessage :: "js_runtime \<Rightarrow> fresh_message \<Rightarrow> ChatMessage list \<Rightarrow> ChatMessage" where
  "createCoalescedReadMessage rt fr messages =
     (let ts = (case messages of baseMessage # rest \<Rightarrow> timestamp baseMessage | [] \<Rightarrow> Date_now rt);
          i = (case messages of baseMessage # rest \<Rightarrow> mid baseMessage | [] \<Rightarrow> new_nanoid fr);
          toolUseId = ''coalesced_'' @ new_random fr;
          toolUse = ToolUse toolUseId ''ReadCoalesced'' (JObj [(''fileReads'', JArr (fileReads messages))]);
          result = \<lparr>tool_use_id = toolUseId,
                    result_content = ResultString (''Successfully read '' @ string_of_nat (length messages) @ '' files''),
                    is_error = False\<rparr>;
          part = setToolResult result (newChatMessagePart toolUse)
      in \<lparr>ref = new_ref fr, mtype = Assistant, parts = [part], timestamp = ts, mid = i\<rparr>)"

text \<open>
  The inner loop \<open>while (next < messages.length)\<close>: it returns the batch and the index
  it stopped at. As in the linker, the guards \<open>!message\<close> and \<open>!nextMessage\<close> never fire
  on an array of the declared type.
\<close>

function collect_batch :: "ChatMessage list \<Rightarrow> nat \<Rightarrow> ChatMessage list \<Rightarrow> ChatMessage list \<times> nat" where
  "collect_batch messages next batch =
     (if next < length messages then
        (let nextMessage = messages ! next in
         if \<not> isReadToolUse nextMessage \<or> \<not> hasSuccessfulToolResult nextMessage
         then (batch, next)
         else collect_batch messages (Suc next) (batch @ [nextMessage]))
      else (batch, next))"
  by pat_completeness auto
termination
  by (relation "measure (\<lambda>(messages, next, batch). length messages - next)") auto

declare collect_batch.simps [simp del]

text \<open>
  The outer loop \<open>while (index < messages.length)\<close>. \<open>fresh k\<close> is what the \<open>k\<close>-th
  synthetic message of this call takes from its environment.
\<close>

function coalesce_loop ::
  "js_runtime \<Rightarrow> (nat \<Rightarrow> fresh_message) \<Rightarrow> ChatMessage list \<Rightarrow> nat \<Rightarrow> nat \<Rightarrow> ChatMessage list \<Rightarrow> ChatMessage list" where
  "coalesce_loop rt fresh messages index k result =
     (if index < length messages then
        (let message = messages ! index in
         if isReadToolUse message \<and> hasSuccessfulToolResult message then
           (let bn = collect_batch messages (index + 1) [message] in
            if length (fst bn) > 1
            then coalesce_loop rt fresh messages (snd bn) (Suc k)
                   (result @ [createCoalescedReadMessage rt (fresh k) (fst bn)])
            else coalesce_loop rt fresh messages (index + 1) k (result @ [message]))
         else coalesce_loop rt fresh messages (index + 1) k (result @ [message]))
      else result)"
  by pat_completeness auto
termination
proof (relation "measure (\<lambda>(rt, fresh, messages, index, k, result). length messages - index)")
  have stop: "n \<le> snd (collect_batch ms n b)" for ms n b
  proof (induction ms n b rule: collect_batch.induct)
    case (1 messages nxt batch)
    show ?case
    proof (cases "nxt < length messages \<and>
        \<not> (\<not> isReadToolUse (messages ! nxt) \<or> \<not> hasSuccessfulToolResult (messages ! nxt))")
      case True
      then have "Suc nxt \<le> snd (collect_batch messages (Suc nxt) (batch @ [messages ! nxt]))"
        using "1.IH" by simp
      moreover have "collect_batch messages nxt batch
          = collect_batch messages (Suc nxt) (batch @ [messages ! nxt])"
        using True by (subst collect_batch.simps) simp
      ultimately show ?thesis by simp
    next
      case False
      then have "collect_batch messages nxt batch = (batch, nxt)"
        by (subst collect_batch.simps) (auto simp: Let_def)
      then show ?thesis by simp
    qed
  qed
  fix rt :: js_runtime and fresh :: "nat \<Rightarrow> fresh_message" and messages :: "ChatMessage list"
    and index k :: nat and result :: "ChatMessage list" and message bn
  assume "index < length messages" and "bn = collect_batch messages (index + 1) [message]"
  then show "((rt, fresh, messages, snd bn, Suc k,
                result @ [createCoalescedReadMessage rt (fresh k) (fst bn)]),
              (rt, fresh, messages, index, k, result))
             \<in> measure (\<lambda>(rt, fresh, messages, index, k, result). length messages - index)"
    using stop [of "index + 1" messages "[message]"] by simp
qed auto

declare coalesce_loop.simps [simp del]

definition coalesceReadMessages :: "js_runtime \<Rightarrow> (nat \<Rightarrow> fresh_message) \<Rightarrow> ChatMessage list \<Rightarrow> ChatMessage list" where
  "coalesceReadMessages rt fresh messages = coalesce_loop rt fresh messages 0 0 []"

section \<open>The history differ (session.ts, lines 644-701)\<close>

text \<open>
  A JavaScript \<open>Map\<close> keeps its keys in insertion order: an association list with
  distinct keys. \<open>map.has(k)\<close> is \<open>map_of m k \<noteq> None\<close>, \<open>map.get(k)\<close> is \<open>map_of m k\<close>, and
  \<open>map.set(k, v)\<close> is \<open>AList.update k v m\<close>, which replaces the value of a key that is
  there and appends the pair otherwise.
\<close>

definition buildMessageMap :: "ChatMessage list \<Rightarrow> (string \<times> ChatMessage) list" where
  "buildMessageMap messages =
     foldl (\<lambda>m message. if map_of m (mid message) = None
                          then AList.update (mid message) message m else m)
           [] messages"

record MessageDiff =
  added :: "ChatMessage list"
  updated :: "ChatMessage list"
  removed :: "string list"

definition diffMessages ::
  "ChatMessage list \<Rightarrow> ChatMessage list \<Rightarrow> message_ref list \<Rightarrow> MessageDiff" where
  "diffMessages previous nxt explicitlyUpdated =
     (let previousMap = buildMessageMap previous;
          nextMap = buildMessageMap nxt;
          explicitIds = map target_id explicitlyUpdated;
          updatedMap =
            foldl (\<lambda>um (i, message).
                     if i \<in> set explicitIds then AList.update i message um
                     else (case map_of previousMap i of
                             Some previousMessage \<Rightarrow>
                               if ref previousMessage \<noteq> ref message
                               then AList.update i message um else um
                           | None \<Rightarrow> um))
                  [] nextMap
      in \<lparr>added = map snd (filter (\<lambda>(i, message). map_of previousMap i = None) nextMap),
          updated = map snd updatedMap,
          removed = map fst (filter (\<lambda>(i, message). map_of nextMap i = None) previousMap)\<rparr>)"

section \<open>The session (session.ts, lines 31-642)\<close>

record UsageSummary =
  totalTokens :: int
  totalCost :: real
  contextWindow :: int

text \<open>\<open>BroadcastMessage\<close>: every notification starts with the \<open>sessionId\<close>.\<close>

datatype BroadcastMessage =
    SessionInfo "string option" nat bool
  | MessagesLoaded "string option" "ChatMessage list"
  | UsageUpdated "string option" UsageSummary
  | TodosUpdated "string option" "json list"
  | ToolsUpdated "string option" "string list"
  | MessageAdded "string option" ChatMessage
  | MessageUpdated "string option" ChatMessage
  | MessageRemoved "string option" string
  | ToolResultUpdated "string option" string string ToolResultContentBlock

text \<open>
  A subscriber callback, as far as the session can tell: called with a notification it
  returns (\<open>None\<close>) or throws (\<open>Some\<close> of the message of what it threw). The argument of
  \<open>subscribe\<close> is any JavaScript value.
\<close>

type_synonym callback = "BroadcastMessage \<Rightarrow> string option"


text \<open>
  \<open>class Session\<close>. \<open>queryPromise\<close> and \<open>loadingPromise\<close> hold the identity of a promise or
  \<open>null\<close>. \<open>cancellationToken\<close> is a reference to a token object; \<open>token_heap\<close> holds
  the \<open>cancelled\<close> flag of every token object made so far, a reference being a position in it.
  Two fields are not in the class and record what the session did to its subscribers:
  \<open>emitted\<close>, the arguments of the calls of \<open>noticeSubscribers\<close>, oldest first (each is
  delivered to every subscriber; the callbacks are taken to return), and \<open>invoked\<close>, the
  direct calls of a callback by \<open>subscribe\<close>, as (subscription id, notification).
\<close>

record Session =
  messages :: "ChatMessage list"
  subscribers :: "(string \<times> callback) list"
  queryPromise :: "nat option"
  loadingPromise :: "nat option"
  cancellationToken :: "nat option"
  token_heap :: "bool list"
  messageCount :: nat
  claudeSessionId :: "string option"
  error :: "string option"
  busy :: bool
  isExplicit :: bool
  lastModifiedTime :: int
  permissionMode :: string
  summary :: "string option"
  currentMainLoopModel :: "string option"
  todos :: "json list"
  tools :: "string list"
  usageData :: UsageSummary
  isLoading :: bool
  pendingTodosBroadcast :: bool
  pendingToolsBroadcast :: bool
  emitted :: "BroadcastMessage list"
  invoked :: "(string \<times> BroadcastMessage) list"

text \<open>The field initialisers of the class.\<close>

definition new_Session :: "js_runtime \<Rightarrow> Session" where
  "new_Session rt =
     \<lparr>messages = [], subscribers = [], queryPromise = None, loadingPromise = None,
      cancellationToken = None, token_heap = [], messageCount = 0, claudeSessionId = None,
      error = None, busy = False, isExplicit = False, lastModifiedTime = Date_now rt,
      permissionMode = ''default'', summary = None, currentMainLoopModel = None,
      todos = [], tools = [],
      usageData = \<lparr>totalTokens = 0, totalCost = 0, contextWindow = 0\<rparr>,
      isLoading = False, pendingTodosBroadcast = False, pendingToolsBroadcast = False,
      emitted = [], invoked = []\<rparr>"

definition hasSubscribers :: "Session \<Rightarrow> bool" where
  "hasSubscribers s = (length (subscribers s) > 0)"

definition noticeSubscribers :: "BroadcastMessage \<Rightarrow> Session \<Rightarrow> Session" where
  "noticeSubscribers message s = s\<lparr>emitted := emitted s @ [message]\<rparr>"

definition emitSessionInfo :: "Session \<Rightarrow> Session" where
  "emitSessionInfo s =
     noticeSubscribers (SessionInfo (claudeSessionId s) (messageCount s) (queryPromise s \<noteq> None)) s"


definition emitTodosUpdate :: "Session \<Rightarrow> Session" where
  "emitTodosUpdate s = noticeSubscribers (TodosUpdated (claudeSessionId s) (todos s)) s"

definition emitToolsUpdate :: "Session \<Rightarrow> Session" where
  "emitToolsUpdate s = noticeSubscribers (ToolsUpdated (claudeSessionId s) (tools s)) s"

text \<open>The setter \<open>set usageData(value)\<close>.\<close>

definition set_usageData :: "UsageSummary \<Rightarrow> Session \<Rightarrow> Session" where
  "set_usageData v s =
     (let s1 = s\<lparr>usageData := v\<rparr>
      in noticeSubscribers (UsageUpdated (claudeSessionId s1) (usageData s1)) s1)"

subsection \<open>cancel and subscribe (lines 82-124)\<close>

definition cancel :: "Session \<Rightarrow> Session" where
  "cancel s =
     (let s1 = (case cancellationToken s of
                  Some t \<Rightarrow> s\<lparr>token_heap := (token_heap s)[t := True], cancellationToken := None\<rparr>
                | None \<Rightarrow> s);
          s2 = s1\<lparr>busy := False\<rparr>;
          s3 = s2\<lparr>queryPromise := None\<rparr>;
          s4 = s3\<lparr>error := Some ''Operation cancelled by user''\<rparr>
      in emitSessionInfo s4)"



subsection \<open>Aggregates (lines 481-641 and 703-731)\<close>

text \<open>
  A todo is a JSON object; \<open>a.content\<close> and \<open>a.status\<close> read its members, \<open>None\<close> being
  \<open>undefined\<close>. \<open>{ ...todo }\<close> copies the own enumerable members: those of an object, the
  indexed elements of an array or of a string, none of any other value. The members of a
  \<open>TodoItem\<close> are strings, on which \<open>!==\<close> compares the values.
\<close>

fun member :: "string \<Rightarrow> json \<Rightarrow> json option" where
  "member k (JObj kvs) = map_of kvs k"
| "member k other = None"

fun spread :: "json \<Rightarrow> json" where
  "spread (JObj kvs) = JObj kvs"
| "spread (JArr xs) = JObj (zip (map string_of_nat [0..<length xs]) xs)"
| "spread (JStr str) = JObj (zip (map string_of_nat [0..<length str]) (map (\<lambda>c. JStr [c]) str))"
| "spread other = JObj []"

text \<open>
  The loop of \<open>areTodosEqual\<close> walks both arrays by one index; \<open>!b\<close> is the case of a
  right array that has run out.
\<close>

fun todos_loop :: "json list \<Rightarrow> json list \<Rightarrow> bool" where
  "todos_loop [] right = True"
| "todos_loop (a # left) [] = False"
| "todos_loop (a # left) (b # right) =
     (if member ''content'' a \<noteq> member ''content'' b \<or> member ''status'' a \<noteq> member ''status'' b
      then False else todos_loop left right)"

definition areTodosEqual :: "json list \<Rightarrow> json list \<Rightarrow> bool" where
  "areTodosEqual left right =
     (if length left \<noteq> length right then False else todos_loop left right)"

fun strings_loop :: "string list \<Rightarrow> string list \<Rightarrow> bool" where
  "strings_loop [] right = True"
| "strings_loop (a # left) [] = False"
| "strings_loop (a # left) (b # right) = (if a \<noteq> b then False else strings_loop left right)"

definition areStringArraysEqual :: "string list \<Rightarrow> string list \<Rightarrow> bool" where
  "areStringArraysEqual left right =
     (if length left \<noteq> length right then False else strings_loop left right)"

definition updateTodosState :: "json list \<Rightarrow> Session \<Rightarrow> Session" where
  "updateTodosState new_todos s =
     (let normalized = map spread new_todos;
          changed = \<not> areTodosEqual (todos s) normalized;
          s1 = s\<lparr>todos := normalized\<rparr>
      in if \<not> changed then s1
         else if isLoading s1 then s1\<lparr>pendingTodosBroadcast := True\<rparr>
         else emitTodosUpdate s1)"

definition updateToolsState :: "string list \<Rightarrow> Session \<Rightarrow> Session" where
  "updateToolsState new_tools s =
     (let normalized = new_tools;
          changed = \<not> areStringArraysEqual (tools s) normalized;
          s1 = s\<lparr>tools := normalized\<rparr>
      in if \<not> changed then s1
         else if isLoading s1 then s1\<lparr>pendingToolsBroadcast := True\<rparr>
         else emitToolsUpdate s1)"


definition updateUsage :: "sdk_usage \<Rightarrow> Session \<Rightarrow> Session" where
  "updateUsage usage s =
     (let total = input_tokens usage
                  + (case cache_creation_input_tokens usage of Some n \<Rightarrow> n | None \<Rightarrow> 0)
                  + (case cache_read_input_tokens usage of Some n \<Rightarrow> n | None \<Rightarrow> 0)
                  + output_tokens usage;
          previous = usageData s
      in set_usageData \<lparr>totalTokens = total, totalCost = totalCost previous,
                         contextWindow = contextWindow previous\<rparr> s)"

text \<open>\<open>handleResultMessage\<close>, called with a defined \<open>total_cost_usd\<close>.\<close>

definition handleResultMessage ::
  "real \<Rightarrow> (string \<times> int option) list option \<Rightarrow> Session \<Rightarrow> Session" where
  "handleResultMessage total_cost_usd modelUsage s =
     (let usage = usageData s;
          modelName = (case currentMainLoopModel s of Some n \<Rightarrow> n | None \<Rightarrow> []);
          cw = (case modelUsage of
                  Some table \<Rightarrow>
                    (case map_of table modelName of
                       Some (Some w) \<Rightarrow> w
                     | _ \<Rightarrow> contextWindow usage)
                | None \<Rightarrow> contextWindow usage)
      in set_usageData \<lparr>totalTokens = totalTokens usage, totalCost = total_cost_usd,
                         contextWindow = cw\<rparr> s)"

text \<open>
  The \<open>todos\<close> member of a \<open>TodoWrite\<close> input that passes the guards of
  \<open>handleAssistantMessage\<close>: the input is an object, has the key, and the value is truthy.
  The input type \<open>{ todos?: TodoItem[] }\<close> of the cast makes a truthy value an array.
\<close>

fun todos_of_input :: "json \<Rightarrow> json list option" where
  "todos_of_input (JObj kvs) =
     (case map_of kvs ''todos'' of Some (JArr items) \<Rightarrow> Some items | _ \<Rightarrow> None)"
| "todos_of_input other = None"

fun handle_block :: "Session \<Rightarrow> MessageContentBlock \<Rightarrow> Session" where
  "handle_block s (ToolUse i n inp) =
     (if n = ''TodoWrite''
      then (case todos_of_input inp of Some items \<Rightarrow> updateTodosState items s | None \<Rightarrow> s)
      else s)"
| "handle_block s other = s"

definition handleAssistantMessage :: "sdk_content \<Rightarrow> sdk_usage option \<Rightarrow> Session \<Rightarrow> Session" where
  "handleAssistantMessage c u s =
     (let s1 = (case c of BlockContent bs \<Rightarrow> foldl handle_block s bs | StringContent str \<Rightarrow> s)
      in case u of Some usage \<Rightarrow> updateUsage usage s1 | None \<Rightarrow> s1)"

fun processMessage :: "SDKMessage \<Rightarrow> Session \<Rightarrow> Session" where
  "processMessage (SDKAssistant h c u) s = handleAssistantMessage c u s"
| "processMessage (SDKSystem h subtype model tool_list pm) s =
     (if subtype = ''init'' then
        (let s1 = (case model of
                     Some m \<Rightarrow> if m \<noteq> [] then s\<lparr>currentMainLoopModel := Some m\<rparr> else s
                   | None \<Rightarrow> s);
             s2 = (case tool_list of Some ts \<Rightarrow> updateToolsState ts s1 | None \<Rightarrow> s1)
         in case pm of
              Some mode \<Rightarrow> if mode \<noteq> [] then s2\<lparr>permissionMode := mode\<rparr> else s2
            | None \<Rightarrow> s2)
      else s)"
| "processMessage (SDKResult h (Some cost) mu) s = handleResultMessage cost mu s"
| "processMessage other s = s"

subsection \<open>Applying one fragment (lines 377-462)\<close>

definition notify_tool_update ::
  "(string \<times> ChatMessage) list \<Rightarrow> Session \<Rightarrow> ToolResultUpdate \<Rightarrow> Session" where
  "notify_tool_update nextMap s toolUpdate =
     (case map_of nextMap (target_id (tru_message toolUpdate)) of
        None \<Rightarrow> s
      | Some message \<Rightarrow>
          noticeSubscribers
            (ToolResultUpdated (claudeSessionId s) (mid message) (toolUseId toolUpdate)
               (tru_toolResult toolUpdate)) s)"

definition applyMessageUpdates ::
  "ChatMessage list \<Rightarrow> ChatMessage list \<Rightarrow> AppendRenderableMessageResult \<Rightarrow> Session \<Rightarrow> Session" where
  "applyMessageUpdates previousMessages nextMessages appendResult s =
     (let s1 = s\<lparr>messages := nextMessages\<rparr>;
          s2 = s1\<lparr>messageCount := length nextMessages\<rparr>;
          diff = diffMessages previousMessages nextMessages (updatedMessages appendResult);
          nextMap = buildMessageMap nextMessages;
          s3 = foldl (\<lambda>st messageId. noticeSubscribers (MessageRemoved (claudeSessionId st) messageId) st)
                 s2 (removed diff);
          s4 = foldl (\<lambda>st a. noticeSubscribers (MessageAdded (claudeSessionId st) a) st)
                 s3 (added diff);
          s5 = foldl (\<lambda>st u. noticeSubscribers (MessageUpdated (claudeSessionId st) u) st)
                 s4 (updated diff);
          s6 = foldl (notify_tool_update nextMap) s5 (toolResultUpdates appendResult)
      in emitSessionInfo s6)"

text \<open>
  \<open>workingMessages\<close> is a copy of the array \<open>previousMessages\<close> that holds the same
  objects, so after \<open>appendRenderableMessage\<close> the messages of \<open>previousMessages\<close>
  carry the linked results: they are the working messages before the pushed one.
\<close>

definition processIncomingMessage ::
  "js_runtime \<Rightarrow> fresh_message \<Rightarrow> (nat \<Rightarrow> fresh_message) \<Rightarrow> SDKMessage \<Rightarrow> Session \<Rightarrow> Session" where
  "processIncomingMessage rt fr fresh message s =
     (let s1 = processMessage message s;
          n = length (messages s1);
          appended = appendRenderableMessage rt fr (messages s1) message;
          workingMessages = fst appended;
          previousMessages = take n workingMessages;
          coalescedMessages = coalesceReadMessages rt fresh workingMessages;
          s2 = applyMessageUpdates previousMessages coalescedMessages (snd appended) s1;
          s3 = s2\<lparr>lastModifiedTime := or_now rt (extractTimestamp rt (raw_ts (sdk_hdr message)))\<rparr>;
          s4 = s3\<lparr>claudeSessionId :=
                    (if session_id (sdk_hdr message) \<noteq> [] then Some (session_id (sdk_hdr message))
                     else claudeSessionId s3)\<rparr>
      in case message of
           SDKSystem h subtype model tool_list pm \<Rightarrow>
             if subtype = ''init'' then s4\<lparr>busy := True\<rparr> else s4
         | SDKResult h cost mu \<Rightarrow> s4\<lparr>busy := False\<rparr>
         | _ \<Rightarrow> s4)"

subsection \<open>Bulk load (lines 132-161, 177-242 and 733-766)\<close>









text \<open>
  \<open>loadFromServer\<close> up to its suspension at \<open>await this.client.getSession\<close>: it returns
  the promise, or \<open>undefined\<close>. \<open>p\<close> is the identity of the promise it would make.
\<close>

definition loadFromServer_start :: "nat \<Rightarrow> string option \<Rightarrow> Session \<Rightarrow> nat option \<times> Session" where
  "loadFromServer_start p sessionId s =
     (let targetSessionId = (case sessionId of Some i \<Rightarrow> Some i | None \<Rightarrow> claudeSessionId s)
      in if targetSessionId = None \<or> targetSessionId = Some [] then (None, s)
         else if loadingPromise s \<noteq> None then (loadingPromise s, s)
         else (Some p,
               s\<lparr>claudeSessionId := targetSessionId, isLoading := True, error := None,
                 loadingPromise := Some p\<rparr>))"

definition resumeFrom :: "nat \<Rightarrow> string \<Rightarrow> Session \<Rightarrow> nat option \<times> Session" where
  "resumeFrom p sessionId s =
     (if sessionId = [] then (None, s) else loadFromServer_start p (Some sessionId) s)"





subsection \<open>send (lines 244-375)\<close>

text \<open>
  \<open>send\<close> has three suspension points: the wait for the promise in flight, the wait for
  each fragment of the stream, and the wait for its own promise. Between them it runs
  these blocks. \<open>send_begin\<close> is the code from the construction of the user message to
  the first wait of the stream; \<open>p\<close> is the identity of the new promise, \<open>blocks\<close> the
  value of \<open>buildUserMessageContent(prompt, attachments)\<close> and \<open>u\<close> that of \<open>randomUUID()\<close>.
\<close>

definition send_begin ::
  "js_runtime \<Rightarrow> fresh_message \<Rightarrow> (nat \<Rightarrow> fresh_message) \<Rightarrow> nat \<Rightarrow> string \<Rightarrow> string
     \<Rightarrow> MessageContentBlock list \<Rightarrow> Session \<Rightarrow> Session" where
  "send_begin rt fr fresh p u prompt blocks s =
     (let userMessage = SDKUser \<lparr>uuid = Some u, raw_ts = TsAbsent, session_id = []\<rparr> (BlockContent blocks);
          n = length (messages s);
          appended = appendRenderableMessage rt fr (messages s) userMessage;
          workingMessages = fst appended;
          coalescedMessages = coalesceReadMessages rt fresh workingMessages;
          s1 = applyMessageUpdates (take n workingMessages) coalescedMessages (snd appended) s;
          s2 = (if summary s1 = None \<or> summary s1 = Some [] then s1\<lparr>summary := Some prompt\<rparr> else s1);
          s3 = s2\<lparr>isExplicit := False, lastModifiedTime := Date_now rt, busy := True, error := None\<rparr>;
          s4 = s3\<lparr>cancellationToken := Some (length (token_heap s3)),
                  token_heap := token_heap s3 @ [False]\<rparr>
      in s4\<lparr>queryPromise := Some p\<rparr>)"

text \<open>One turn of the loop \<open>for await\<close>: \<open>None\<close> is the \<open>break\<close> on cancellation.\<close>

definition send_fragment ::
  "js_runtime \<Rightarrow> fresh_message \<Rightarrow> (nat \<Rightarrow> fresh_message) \<Rightarrow> SDKMessage \<Rightarrow> Session \<Rightarrow> Session option" where
  "send_fragment rt fr fresh message s =
     (if (case cancellationToken s of Some t \<Rightarrow> token_heap s ! t | None \<Rightarrow> False) then None
      else Some (processIncomingMessage rt fr fresh message s))"

definition send_catch :: "string \<Rightarrow> Session \<Rightarrow> Session" where
  "send_catch e s = s\<lparr>error := Some e\<rparr>"

definition send_finally :: "Session \<Rightarrow> Session" where
  "send_finally s =
     emitSessionInfo (s\<lparr>queryPromise := None, cancellationToken := None, busy := False\<rparr>)"

text \<open>
  Callers of \<open>send\<close> on one session, run by the single thread of JavaScript. A caller is
  waiting for the promise that was in flight when it called (with the arguments of its
  call), or has begun and is reading its stream, or has returned, or has been rejected
  by the promise it waited for. The promise of caller \<open>c\<close> is \<open>c\<close>; \<open>settled\<close> tells for a
  promise whether it was fulfilled.
\<close>

datatype phase =
    Awaiting nat string string "MessageContentBlock list"
  | Streaming
  | Returned
  | Rejected

record scheduler =
  session :: Session
  phases :: "(nat \<times> phase) list"
  settled :: "(nat \<times> bool) list"

datatype send_event =
    Call nat string string "MessageContentBlock list"
  | Resume nat
  | Fragment nat SDKMessage
  | StreamEnd nat
  | StreamFail nat string

definition begin_caller ::
  "js_runtime \<Rightarrow> (nat \<Rightarrow> fresh_message) \<Rightarrow> (nat \<Rightarrow> fresh_message) \<Rightarrow> nat \<Rightarrow> string \<Rightarrow> string
     \<Rightarrow> MessageContentBlock list \<Rightarrow> scheduler \<Rightarrow> scheduler" where
  "begin_caller rt fr fresh c u prompt blocks cfg =
     cfg\<lparr>session := send_begin rt (fr c) fresh c u prompt blocks (session cfg),
         phases := AList.update c Streaming (phases cfg)\<rparr>"

text \<open>
  One step of the callers; \<open>None\<close> when the step cannot happen. A call that finds
  \<open>queryPromise\<close> set waits for that promise; a waiting caller resumes once the
  promise is settled, after the \<open>await\<close> and hence without reading \<open>queryPromise\<close> again:
  it begins when the promise was fulfilled and is rejected with it otherwise (the \<open>await\<close>
  is outside every \<open>try\<close>). The end of a stream, or its failure, runs the \<open>finally\<close> block
  and settles the promise; the caller itself, the first to have waited for its promise,
  then returns, after a stream that ended with \<open>this.lastModifiedTime = Date.now()\<close>.
\<close>

fun send_step ::
  "js_runtime \<Rightarrow> (nat \<Rightarrow> fresh_message) \<Rightarrow> (nat \<Rightarrow> fresh_message) \<Rightarrow> scheduler \<Rightarrow> send_event
     \<Rightarrow> scheduler option" where
  "send_step rt fr fresh cfg (Call c u prompt blocks) =
     (if map_of (phases cfg) c \<noteq> None then None
      else case queryPromise (session cfg) of
             Some p \<Rightarrow> Some (cfg\<lparr>phases := AList.update c (Awaiting p u prompt blocks) (phases cfg)\<rparr>)
           | None \<Rightarrow> Some (begin_caller rt fr fresh c u prompt blocks cfg))"
| "send_step rt fr fresh cfg (Resume c) =
     (case map_of (phases cfg) c of
        Some (Awaiting p u prompt blocks) \<Rightarrow>
          (case map_of (settled cfg) p of
             Some True \<Rightarrow> Some (begin_caller rt fr fresh c u prompt blocks cfg)
           | Some False \<Rightarrow> Some (cfg\<lparr>phases := AList.update c Rejected (phases cfg)\<rparr>)
           | None \<Rightarrow> None)
      | _ \<Rightarrow> None)"
| "send_step rt fr fresh cfg (Fragment c message) =
     (if map_of (phases cfg) c = Some Streaming
      then (case send_fragment rt (fr c) fresh message (session cfg) of
              Some s' \<Rightarrow> Some (cfg\<lparr>session := s'\<rparr>)
            | None \<Rightarrow> Some cfg)
      else None)"
| "send_step rt fr fresh cfg (StreamEnd c) =
     (if map_of (phases cfg) c = Some Streaming
      then Some (cfg\<lparr>session := (send_finally (session cfg))\<lparr>lastModifiedTime := Date_now rt\<rparr>,
                     phases := AList.update c Returned (phases cfg),
                     settled := AList.update c True (settled cfg)\<rparr>)
      else None)"
| "send_step rt fr fresh cfg (StreamFail c e) =
     (if map_of (phases cfg) c = Some Streaming
      then Some (cfg\<lparr>session := send_finally (send_catch e (session cfg)),
                     phases := AList.update c Returned (phases cfg),
                     settled := AList.update c False (settled cfg)\<rparr>)
      else None)"

fun send_run ::
  "js_runtime \<Rightarrow> (nat \<Rightarrow> fresh_message) \<Rightarrow> (nat \<Rightarrow> fresh_message) \<Rightarrow> scheduler \<Rightarrow> send_event list
     \<Rightarrow> scheduler option" where
  "send_run rt fr fresh cfg [] = Some cfg"
| "send_run rt fr fresh cfg (ev # evs) =
     (case send_step rt fr fresh cfg ev of
        Some cfg' \<Rightarrow> send_run rt fr fresh cfg' evs
      | None \<Rightarrow> None)"

definition streaming :: "scheduler \<Rightarrow> nat list" where
  "streaming cfg = map fst (filter (\<lambda>(c, ph). ph = Streaming) (phases cfg))"

section \<open>Reference definitions for the stated properties\<close>

subsection \<open>Coalescing by runs\<close>

text \<open>
  The condition under which \<open>coalesceReadMessages\<close> starts and extends a batch.
\<close>

definition read_predicate :: "ChatMessage \<Rightarrow> bool" where
  "read_predicate m = (isReadToolUse m \<and> hasSuccessfulToolResult m)"

text \<open>
  The coalescing transform as the specification words it: one pass from the left; a
  run starts at a turn that satisfies the predicate and extends while the next turn
  satisfies it; a run of two or more turns becomes one synthetic turn, made by \<open>mk\<close>
  from the run (\<open>k\<close> counts the synthetic turns made before); every other turn passes
  unchanged.
\<close>

function coalesce_runs ::
  "(ChatMessage \<Rightarrow> bool) \<Rightarrow> (nat \<Rightarrow> ChatMessage list \<Rightarrow> ChatMessage) \<Rightarrow> nat \<Rightarrow> ChatMessage list \<Rightarrow> ChatMessage list" where
  "coalesce_runs P mk k [] = []"
| "coalesce_runs P mk k (m # ms) =
     (if P m \<and> 2 \<le> length (m # takeWhile P ms)
      then mk k (m # takeWhile P ms) # coalesce_runs P mk (Suc k) (dropWhile P ms)
      else m # coalesce_runs P mk k ms)"
  by pat_completeness auto
termination
  by (relation "measure (\<lambda>(P, mk, k, ms). length ms)")
     (auto simp: length_dropWhile_le less_Suc_eq_le)

text \<open>
  The read-predicate as the specification words it: an assistant turn that is a single
  invocation, of the tool named Read, carrying a result that is not an error.
\<close>

definition single_read_turn :: "ChatMessage \<Rightarrow> bool" where
  "single_read_turn m =
     (mtype m = Assistant \<and>
      (case parts m of
         [p] \<Rightarrow> (case content p of
                   ToolUse i n inp \<Rightarrow>
                     n = ''Read'' \<and> (case toolResult p of Some r \<Rightarrow> \<not> is_error r | None \<Rightarrow> False)
                 | _ \<Rightarrow> False)
       | _ \<Rightarrow> False))"

subsection \<open>Example data\<close>

definition example_rt :: js_runtime where
  "example_rt = \<lparr>Number_finite = (\<lambda>str. None), Date_parse = (\<lambda>str. None), Date_now = 1000\<rparr>"

definition example_fresh :: "nat \<Rightarrow> fresh_message" where
  "example_fresh k = \<lparr>new_ref = 100 + k, new_nanoid = ''nano'', new_random = ''rnd''\<rparr>"

definition ok_result :: "string \<Rightarrow> ToolResultContentBlock" where
  "ok_result i = \<lparr>tool_use_id = i, result_content = ResultString ''ok'', is_error = False\<rparr>"

definition read_turn :: "nat \<Rightarrow> string \<Rightarrow> string \<Rightarrow> ChatMessage" where
  "read_turn r i path =
     \<lparr>ref = r, mtype = Assistant,
      parts = [\<lparr>content = ToolUse i ''Read'' (JObj [(''file_path'', JStr path)]),
                toolResultData = Some (ok_result i)\<rparr>],
      timestamp = int r, mid = ''m-'' @ i\<rparr>"


subsection \<open>Coalescing as specified\<close>

text \<open>The coalescing transform with the read-predicate of the specification.\<close>

definition claimed_coalesce :: "js_runtime \<Rightarrow> (nat \<Rightarrow> fresh_message) \<Rightarrow> ChatMessage list \<Rightarrow> ChatMessage list" where
  "claimed_coalesce rt fresh ms =
     coalesce_runs single_read_turn (\<lambda>k. createCoalescedReadMessage rt (fresh k)) 0 ms"

subsection \<open>Snapshots by id\<close>

text \<open>
  For each id of a snapshot, the first turn of the snapshot that carries it, in the
  order of the snapshot. A snapshot whose turns have distinct ids is its own
  \<open>first_per_id\<close>.
\<close>

definition first_per_id :: "ChatMessage list \<Rightarrow> ChatMessage list" where
  "first_per_id ms = [ms ! i. i \<leftarrow> [0..<length ms], mid (ms ! i) \<notin> mid ` set (take i ms)]"

text \<open>
  A turn of the next snapshot counts as updated when its id is in the explicit-update
  set, or when the previous snapshot has a turn of that id (its first) that is another
  object.
\<close>

definition is_updated :: "ChatMessage list \<Rightarrow> message_ref list \<Rightarrow> ChatMessage \<Rightarrow> bool" where
  "is_updated previous explicitlyUpdated m =
     (mid m \<in> target_id ` set explicitlyUpdated
      \<or> (case find (\<lambda>p. mid p = mid m) previous of Some p \<Rightarrow> ref p \<noteq> ref m | None \<Rightarrow> False))"

text \<open>The added turns as the specification words them: the turns of next whose id is not in previous.\<close>

definition claimed_added :: "ChatMessage list \<Rightarrow> ChatMessage list \<Rightarrow> ChatMessage list" where
  "claimed_added previous nxt = filter (\<lambda>m. mid m \<notin> mid ` set previous) nxt"

definition plain_turn :: "nat \<Rightarrow> string \<Rightarrow> ChatMessage" where
  "plain_turn r i = \<lparr>ref = r, mtype = User, parts = [], timestamp = 0, mid = i\<rparr>"

subsection \<open>Sessions, callbacks and notifications\<close>

text \<open>An operation is in flight when the session holds its promise or its cancellation token.\<close>

definition in_flight :: "Session \<Rightarrow> bool" where
  "in_flight s = (queryPromise s \<noteq> None \<or> cancellationToken s \<noteq> None)"





text \<open>The tool-result notifications of \<open>applyMessageUpdates\<close>, in order.\<close>

definition tool_events ::
  "(string \<times> ChatMessage) list \<Rightarrow> string option \<Rightarrow> ToolResultUpdate list \<Rightarrow> BroadcastMessage list" where
  "tool_events nextMap sid us =
     concat (map (\<lambda>u. case map_of nextMap (target_id (tru_message u)) of
                         None \<Rightarrow> []
                       | Some message \<Rightarrow>
                           [ToolResultUpdated sid (mid message) (toolUseId u) (tru_toolResult u)]) us)"

subsection \<open>Invocations and their results\<close>

text \<open>
  The history has an invocation with the id: some part of some assistant turn is a tool
  use with it. A block answers an invocation when it is a tool result whose
  \<open>tool_use_id\<close> is the id of an invocation of the history.
\<close>

definition has_invocation :: "ChatMessage list \<Rightarrow> string \<Rightarrow> bool" where
  "has_invocation ms tid =
     list_ex (\<lambda>m. mtype m = Assistant \<and> list_ex (is_tool_use_with_id tid) (parts m)) ms"

definition answers_invocation :: "ChatMessage list \<Rightarrow> MessageContentBlock \<Rightarrow> bool" where
  "answers_invocation ms block =
     (case block of ToolResult r \<Rightarrow> has_invocation ms (tool_use_id r) | _ \<Rightarrow> False)"

definition no_block_answers :: "ChatMessage list \<Rightarrow> MessageContentBlock list \<Rightarrow> bool" where
  "no_block_answers ms bs = list_all (\<lambda>b. \<not> answers_invocation ms b) bs"

text \<open>The notifications emitted between two states of a session.\<close>

definition emitted_since :: "Session \<Rightarrow> Session \<Rightarrow> BroadcastMessage list" where
  "emitted_since s s' = drop (length (emitted s)) (emitted s')"

fun is_tool_result_updated :: "BroadcastMessage \<Rightarrow> bool" where
  "is_tool_result_updated (ToolResultUpdated sid m t r) = True"
| "is_tool_result_updated other = False"

text \<open>The turn rendered from a user fragment whose content is an array of blocks.\<close>

definition rendered_user :: "js_runtime \<Rightarrow> fresh_message \<Rightarrow> sdk_header \<Rightarrow> MessageContentBlock list \<Rightarrow> ChatMessage" where
  "rendered_user rt fr h bs =
     \<lparr>ref = new_ref fr, mtype = User, parts = map newChatMessagePart bs,
      timestamp = or_now rt (extractTimestamp rt (raw_ts h)),
      mid = (case uuid h of Some u \<Rightarrow> u | None \<Rightarrow> new_nanoid fr)\<rparr>"

text \<open>A result for an invocation \<open>zz\<close> that no turn made, and a session with one answered turn.\<close>

definition orphan_result :: MessageContentBlock where
  "orphan_result =
     ToolResult \<lparr>tool_use_id = ''zz'', result_content = ResultString ''late'', is_error = False\<rparr>"

definition orphan_header :: sdk_header where
  "orphan_header = \<lparr>uuid = Some ''u9'', raw_ts = TsNumber 9, session_id = []\<rparr>"

definition one_turn_session :: Session where
  "one_turn_session =
     (new_Session example_rt)\<lparr>messages := [read_turn 1 ''t1'' ''a.txt''], messageCount := 1\<rparr>"

text \<open>
  The target of a result as the specification words it. \<open>unanswered_parts\<close> lists the
  invocation parts with the id and an empty result slot as the scan meets them: turns
  from the newest to the oldest, assistant turns only, parts in order within a turn;
  \<open>matching_parts\<close> lists the invocation parts with the id in the same order. The target
  is the first unanswered part when there is one, and the first matching part otherwise.
\<close>

definition unanswered_parts :: "ChatMessage list \<Rightarrow> string \<Rightarrow> ToolUseMatch list" where
  "unanswered_parts ms tid =
     [(i, j). i \<leftarrow> rev [0..<length ms], mtype (ms ! i) = Assistant,
              j \<leftarrow> [0..<length (parts (ms ! i))],
              is_tool_use_with_id tid (parts (ms ! i) ! j) \<and> toolResult (parts (ms ! i) ! j) = None]"

definition matching_parts :: "ChatMessage list \<Rightarrow> string \<Rightarrow> ToolUseMatch list" where
  "matching_parts ms tid =
     [(i, j). i \<leftarrow> rev [0..<length ms], mtype (ms ! i) = Assistant,
              j \<leftarrow> [0..<length (parts (ms ! i))],
              is_tool_use_with_id tid (parts (ms ! i) ! j)]"

definition claimed_target :: "ChatMessage list \<Rightarrow> string \<Rightarrow> ToolUseMatch option" where
  "claimed_target ms tid =
     (case unanswered_parts ms tid of
        t # rest \<Rightarrow> Some t
      | [] \<Rightarrow> (case matching_parts ms tid of t # rest \<Rightarrow> Some t | [] \<Rightarrow> None))"

text \<open>No turn of the history has two parts that are invocations with the id.\<close>

definition one_invocation_per_turn :: "ChatMessage list \<Rightarrow> string \<Rightarrow> bool" where
  "one_invocation_per_turn ms tid =
     list_all (\<lambda>m. length (filter (is_tool_use_with_id tid) (parts m)) \<le> 1) ms"

text \<open>The same lists for the parts of one turn, and for the first \<open>n\<close> turns of a history.\<close>

definition pending_in :: "string \<Rightarrow> ChatMessagePart list \<Rightarrow> nat list" where
  "pending_in X ps =
     [j \<leftarrow> [0..<length ps]. is_tool_use_with_id X (ps ! j) \<and> toolResult (ps ! j) = None]"

definition matching_in :: "string \<Rightarrow> ChatMessagePart list \<Rightarrow> nat list" where
  "matching_in X ps = [j \<leftarrow> [0..<length ps]. is_tool_use_with_id X (ps ! j)]"

definition pending_upto :: "ChatMessage list \<Rightarrow> string \<Rightarrow> nat \<Rightarrow> ToolUseMatch list" where
  "pending_upto ms X n =
     concat (map (\<lambda>i. if mtype (ms ! i) = Assistant then map (Pair i) (pending_in X (parts (ms ! i))) else [])
               (rev [0..<n]))"

definition matching_upto :: "ChatMessage list \<Rightarrow> string \<Rightarrow> nat \<Rightarrow> ToolUseMatch list" where
  "matching_upto ms X n =
     concat (map (\<lambda>i. if mtype (ms ! i) = Assistant then map (Pair i) (matching_in X (parts (ms ! i))) else [])
               (rev [0..<n]))"

text \<open>
  An assistant turn with two invocation parts of one id: the first answered, the second
  not; and a late result for that id.
\<close>

definition old_result :: ToolResultContentBlock where
  "old_result = \<lparr>tool_use_id = ''X'', result_content = ResultString ''first'', is_error = False\<rparr>"

definition late_result :: ToolResultContentBlock where
  "late_result = \<lparr>tool_use_id = ''X'', result_content = ResultString ''second'', is_error = False\<rparr>"

definition answered_part :: ChatMessagePart where
  "answered_part = \<lparr>content = ToolUse ''X'' ''Bash'' JNull, toolResultData = Some old_result\<rparr>"

definition pending_part :: ChatMessagePart where
  "pending_part = \<lparr>content = ToolUse ''X'' ''Bash'' JNull, toolResultData = None\<rparr>"

definition twice_invoked_turn :: ChatMessage where
  "twice_invoked_turn =
     \<lparr>ref = 1, mtype = Assistant, parts = [answered_part, pending_part], timestamp = 1, mid = ''a1''\<rparr>"

subsection \<open>Aggregates during a load\<close>

text \<open>The notifications of the todo list and of the tool inventory.\<close>

fun is_todos_updated :: "BroadcastMessage \<Rightarrow> bool" where
  "is_todos_updated (TodosUpdated sid ts) = True"
| "is_todos_updated other = False"

fun is_tools_updated :: "BroadcastMessage \<Rightarrow> bool" where
  "is_tools_updated (ToolsUpdated sid ts) = True"
| "is_tools_updated other = False"

definition is_state_update :: "BroadcastMessage \<Rightarrow> bool" where
  "is_state_update e = (is_todos_updated e \<or> is_tools_updated e)"

text \<open>
  From \<open>s\<close> to \<open>s'\<close> the session has emitted notifications, none of them of the todo
  list or of the tool inventory, and \<open>s'\<close> has its loading flag set.
\<close>

definition quietly :: "Session \<Rightarrow> Session \<Rightarrow> bool" where
  "quietly s s' = (isLoading s' \<and> (\<exists>new. emitted s' = emitted s @ new \<and> \<not> list_ex is_state_update new))"











subsection \<open>Concurrent callers of send\<close>

text \<open>
  An idle session and two runs of callers. In the first, three calls of \<open>send\<close> are made
  in a row; the stream of the first ends; the second and the third caller, both waiting
  for the promise of the first, resume in the order of their calls. In the second, the
  stream of the first caller fails while the second caller waits.
\<close>

definition idle_scheduler :: scheduler where
  "idle_scheduler = \<lparr>session = new_Session example_rt, phases = [], settled = []\<rparr>"

definition three_calls_trace :: "send_event list" where
  "three_calls_trace =
     [Call 1 ''u1'' ''a'' [TextBlock ''a''], Call 2 ''u2'' ''b'' [TextBlock ''b''],
      Call 3 ''u3'' ''c'' [TextBlock ''c''], StreamEnd 1, Resume 2, Resume 3]"

definition failed_send_trace :: "send_event list" where
  "failed_send_trace =
     [Call 1 ''u1'' ''a'' [TextBlock ''a''], Call 2 ''u2'' ''b'' [TextBlock ''b''],
      StreamFail 1 ''transport error'', Resume 2]"

section \<open>Verification\<close>

subsection \<open>The read-coalescer\<close>

lemma collect_batch_eq:
  "collect_batch ms n b =
     (b @ takeWhile read_predicate (drop n ms), n + length (takeWhile read_predicate (drop n ms)))"
proof (induction ms n b rule: collect_batch.induct)
  case (1 ms nxt batch)
  show ?case
  proof (cases "nxt < length ms")
    case False
    then show ?thesis by (subst collect_batch.simps) simp
  next
    case True
    then have d: "drop nxt ms = ms ! nxt # drop (Suc nxt) ms"
      by (simp add: Cons_nth_drop_Suc)
    show ?thesis
    proof (cases "read_predicate (ms ! nxt)")
      case False
      then show ?thesis using True d
        by (subst collect_batch.simps) (auto simp: read_predicate_def Let_def)
    next
      case P: True
      then have p: "isReadToolUse (ms ! nxt)" "hasSuccessfulToolResult (ms ! nxt)"
        by (simp_all add: read_predicate_def)
      have "collect_batch ms nxt batch = collect_batch ms (Suc nxt) (batch @ [ms ! nxt])"
        using True p by (subst collect_batch.simps) simp
      also have "\<dots> = ((batch @ [ms ! nxt]) @ takeWhile read_predicate (drop (Suc nxt) ms),
          Suc nxt + length (takeWhile read_predicate (drop (Suc nxt) ms)))"
        using "1.IH" True p by simp
      finally show ?thesis using d P by simp
    qed
  qed
qed

lemma drop_takeWhile_dropWhile:
  "drop (n + length (takeWhile P (drop n ms))) ms = dropWhile P (drop n ms)"
proof -
  have "drop (length (takeWhile P (drop n ms))) (drop n ms) = dropWhile P (drop n ms)"
    by (rule dropWhile_eq_drop [symmetric])
  then show ?thesis by (simp add: add.commute)
qed

lemma coalesce_loop_eq:
  "coalesce_loop rt fresh ms index k acc =
     acc @ coalesce_runs read_predicate (\<lambda>k. createCoalescedReadMessage rt (fresh k)) k (drop index ms)"
proof (induction rt fresh ms index k acc rule: coalesce_loop.induct)
  case (1 rt fresh ms index k acc)
  show ?case
  proof (cases "index < length ms")
    case False
    then show ?thesis by (subst coalesce_loop.simps) simp
  next
    case True
    then have d: "drop index ms = ms ! index # drop (Suc index) ms"
      by (simp add: Cons_nth_drop_Suc)
    let ?m = "ms ! index"
    let ?run = "takeWhile read_predicate (drop (Suc index) ms)"
    show ?thesis
    proof (cases "read_predicate ?m")
      case False
      then have np: "\<not> (isReadToolUse ?m \<and> hasSuccessfulToolResult ?m)"
        by (simp add: read_predicate_def)
      have "coalesce_loop rt fresh ms index k acc
           = coalesce_loop rt fresh ms (index + 1) k (acc @ [?m])"
        using True np by (subst coalesce_loop.simps) auto
      also have "\<dots> = (acc @ [?m]) @ coalesce_runs read_predicate
           (\<lambda>k. createCoalescedReadMessage rt (fresh k)) k (drop (index + 1) ms)"
        using "1.IH"(3) [OF True refl np] .
      finally show ?thesis using d False by simp
    next
      case P: True
      then have p: "isReadToolUse ?m \<and> hasSuccessfulToolResult ?m"
        by (simp add: read_predicate_def)
      have cb: "collect_batch ms (index + 1) [?m] = (?m # ?run, Suc index + length ?run)"
        by (simp add: collect_batch_eq)
      show ?thesis
      proof (cases "?run = []")
        case True
        then have "coalesce_loop rt fresh ms index k acc
           = coalesce_loop rt fresh ms (index + 1) k (acc @ [?m])"
          using \<open>index < length ms\<close> p cb
          by (subst coalesce_loop.simps) (auto simp: Let_def)
        also have "\<dots> = (acc @ [?m]) @ coalesce_runs read_predicate
           (\<lambda>k. createCoalescedReadMessage rt (fresh k)) k (drop (index + 1) ms)"
          using "1.IH"(2) [OF \<open>index < length ms\<close> refl p refl] cb True
          by simp
        finally show ?thesis using d P True by simp
      next
        case False
        then have len: "1 < length (?m # ?run)" and len': "Suc 0 \<le> length ?run"
          by (cases ?run; simp)+
        have "coalesce_loop rt fresh ms index k acc
           = coalesce_loop rt fresh ms (Suc index + length ?run) (Suc k)
               (acc @ [createCoalescedReadMessage rt (fresh k) (?m # ?run)])"
          using \<open>index < length ms\<close> p cb len
          by (subst coalesce_loop.simps) (auto simp: Let_def)
        also have "\<dots> = (acc @ [createCoalescedReadMessage rt (fresh k) (?m # ?run)])
             @ coalesce_runs read_predicate (\<lambda>k. createCoalescedReadMessage rt (fresh k)) (Suc k)
                 (drop (Suc index + length ?run) ms)"
          using "1.IH"(1) [OF \<open>index < length ms\<close> refl p refl] cb len
          by simp
        finally show ?thesis
          using d P len' drop_takeWhile_dropWhile [of "Suc index" read_predicate ms]
          by simp
      qed
    qed
  qed
qed

lemma coalesceReadMessages_eq_runs:
  "coalesceReadMessages rt fresh ms =
     coalesce_runs read_predicate (\<lambda>k. createCoalescedReadMessage rt (fresh k)) 0 ms"
  by (simp add: coalesceReadMessages_def coalesce_loop_eq)

lemma createCoalescedReadMessage_not_read:
  "\<not> read_predicate (createCoalescedReadMessage rt fr batch)"
  by (simp add: createCoalescedReadMessage_def read_predicate_def isReadToolUse_def Let_def
      setToolResult_def newChatMessagePart_def)

lemma coalesce_runs_twice:
  "(\<And>k run. \<not> P (mk k run)) \<Longrightarrow>
   coalesce_runs P mk' k' (coalesce_runs P mk k xs) = coalesce_runs P mk k xs"
proof (induction P mk k xs arbitrary: k' rule: coalesce_runs.induct)
  case (1 P mk k)
  show ?case by simp
next
  case (2 P mk k m ms)
  note synth = "2.prems"
  show ?case
  proof (cases "P m \<and> 2 \<le> length (m # takeWhile P ms)")
    case True
    then have "coalesce_runs P mk' k' (coalesce_runs P mk (Suc k) (dropWhile P ms))
        = coalesce_runs P mk (Suc k) (dropWhile P ms)"
      using "2.IH"(1) synth by blast
    then show ?thesis using True synth by simp
  next
    case False
    then have again: "coalesce_runs P mk' k' (coalesce_runs P mk k ms) = coalesce_runs P mk k ms"
      using "2.IH"(2) synth by blast
    have out: "coalesce_runs P mk k (m # ms) = m # coalesce_runs P mk k ms"
      using False by auto
    have "takeWhile P (coalesce_runs P mk k ms) = []" if "P m"
    proof (cases ms)
      case Nil
      then show ?thesis by simp
    next
      case (Cons x xs)
      then have "\<not> P x" using False that by auto
      then show ?thesis using Cons by simp
    qed
    then show ?thesis using out again by auto
  qed
qed


lemma read_turn_is_read: "read_predicate (read_turn r i p)"
  by (simp add: read_predicate_def isReadToolUse_def hasSuccessfulToolResult_def read_turn_def
      toolResult_def ok_result_def)


text \<open>
  C4. Coalescing is idempotent: applying the read-coalescer to its own output gives
  that output again, whatever the second pass would take from its environment.
\<close>

theorem coalesceReadMessages_idempotent:
  "coalesceReadMessages rt' fresh' (coalesceReadMessages rt fresh ms) = coalesceReadMessages rt fresh ms"
  unfolding coalesceReadMessages_eq_runs
  by (rule coalesce_runs_twice) (rule createCoalescedReadMessage_not_read)

theorem coalesceReadMessages_idempotent_witness:
  "coalesceReadMessages example_rt example_fresh
     (coalesceReadMessages example_rt example_fresh
        [read_turn 4 ''t1'' ''a.txt'', read_turn 5 ''t2'' ''b.txt'', plain_turn 3 ''u3''])
   = [createCoalescedReadMessage example_rt (example_fresh 0)
        [read_turn 4 ''t1'' ''a.txt'', read_turn 5 ''t2'' ''b.txt''],
      plain_turn 3 ''u3'']"
proof -
  have user: "\<not> read_predicate (plain_turn 3 ''u3'')"
    by (simp add: read_predicate_def isReadToolUse_def plain_turn_def)
  have once: "coalesceReadMessages example_rt example_fresh
        [read_turn 4 ''t1'' ''a.txt'', read_turn 5 ''t2'' ''b.txt'', plain_turn 3 ''u3'']
      = [createCoalescedReadMessage example_rt (example_fresh 0)
           [read_turn 4 ''t1'' ''a.txt'', read_turn 5 ''t2'' ''b.txt''],
         plain_turn 3 ''u3'']"
    by (simp add: coalesceReadMessages_eq_runs read_turn_is_read user)
  show ?thesis
    using coalesceReadMessages_idempotent [of example_rt example_fresh example_rt example_fresh
        "[read_turn 4 ''t1'' ''a.txt'', read_turn 5 ''t2'' ''b.txt'', plain_turn 3 ''u3'']"]
    by (simp add: once)
qed




text \<open>
  On a history in which every turn has exactly one part, the read-predicate of the code
  is that of the specification, and the code is the transform as the claim words it.
\<close>

lemma coalesce_runs_cong:
  "(\<And>m. m \<in> set ms \<Longrightarrow> P m = Q m) \<Longrightarrow> coalesce_runs P mk k ms = coalesce_runs Q mk k ms"
proof (induction P mk k ms rule: coalesce_runs.induct)
  case (1 P mk k)
  show ?case by simp
next
  case (2 P mk k m ms)
  have tw: "takeWhile P ms = takeWhile Q ms"
    using "2.prems" by (intro takeWhile_cong) auto
  have dw: "dropWhile P ms = dropWhile Q ms"
    using "2.prems" by (intro dropWhile_cong) auto
  have pm: "P m = Q m" using "2.prems" by simp
  have in_dw: "x \<in> set (dropWhile Q ms) \<Longrightarrow> x \<in> set ms" for x
    by (rule set_mp [OF set_dropWhileD [THEN subsetI]])
  show ?case
  proof (cases "P m \<and> 2 \<le> length (m # takeWhile P ms)")
    case True
    have "coalesce_runs P mk (Suc k) (dropWhile P ms) = coalesce_runs Q mk (Suc k) (dropWhile P ms)"
      using "2.IH"(1) [OF True] "2.prems" dw in_dw by auto
    then show ?thesis using True tw dw pm by simp
  next
    case False
    have "coalesce_runs P mk k ms = coalesce_runs Q mk k ms"
      using "2.IH"(2) [OF False] "2.prems" by auto
    then show ?thesis using False tw pm by auto
  qed
qed

lemma single_part_predicates:
  "length (parts m) = 1 \<Longrightarrow> read_predicate m = single_read_turn m"
  by (cases "parts m")
     (auto simp: read_predicate_def single_read_turn_def isReadToolUse_def
        hasSuccessfulToolResult_def split: MessageContentBlock.splits option.splits)

lemma coalesceReadMessages_single_part:
  "list_all (\<lambda>m. length (parts m) = 1) ms \<Longrightarrow>
   coalesceReadMessages rt fresh ms = claimed_coalesce rt fresh ms"
  unfolding coalesceReadMessages_eq_runs claimed_coalesce_def
  by (rule coalesce_runs_cong) (simp add: list_all_iff single_part_predicates)

subsection \<open>The history differ\<close>

lemma first_per_id_snoc:
  "first_per_id (ms @ [m]) = first_per_id ms @ (if mid m \<in> mid ` set ms then [] else [m])"
proof -
  have "concat (map (\<lambda>i. if mid ((ms @ [m]) ! i) \<notin> mid ` set (take i (ms @ [m])) then [(ms @ [m]) ! i] else []) [0..<length ms])
      = concat (map (\<lambda>i. if mid (ms ! i) \<notin> mid ` set (take i ms) then [ms ! i] else []) [0..<length ms])"
    by (rule arg_cong [where f = concat], rule map_cong) (auto simp: nth_append)
  then show ?thesis
    by (simp add: first_per_id_def)
qed

lemma first_per_id_Nil [simp]: "first_per_id [] = []"
  by (simp add: first_per_id_def)

lemma update_absent: "k \<notin> fst ` set al \<Longrightarrow> AList.update k v al = al @ [(k, v)]"
  by (induction al) auto

lemma buildMessageMap_snoc:
  "buildMessageMap (ms @ [m]) =
     (if map_of (buildMessageMap ms) (mid m) = None
      then buildMessageMap ms @ [(mid m, m)] else buildMessageMap ms)"
  by (simp add: buildMessageMap_def map_of_eq_None_iff update_absent)

lemma buildMessageMap_first_per_id:
  "buildMessageMap ms = map (\<lambda>m. (mid m, m)) (first_per_id ms)
   \<and> mid ` set (first_per_id ms) = mid ` set ms"
proof (induction ms rule: rev_induct)
  case Nil
  show ?case by (simp add: buildMessageMap_def)
next
  case (snoc m ms)
  then have keys: "fst ` set (buildMessageMap ms) = mid ` set ms"
    by (simp add: image_image) 
  show ?case
    using snoc keys
    by (auto simp: buildMessageMap_snoc first_per_id_snoc map_of_eq_None_iff)
qed

lemma buildMessageMap_eq: "buildMessageMap ms = map (\<lambda>m. (mid m, m)) (first_per_id ms)"
  using buildMessageMap_first_per_id by blast

lemma first_per_id_ids: "mid ` set (first_per_id ms) = mid ` set ms"
  using buildMessageMap_first_per_id by blast

lemma first_per_id_distinct: "distinct (map mid (first_per_id ms))"
proof (induction ms rule: rev_induct)
  case Nil
  show ?case by simp
next
  case (snoc m ms)
  then show ?case
    using first_per_id_ids [of ms] by (auto simp: first_per_id_snoc)
qed

lemma first_per_id_subset: "set (first_per_id ms) \<subseteq> set ms"
  by (induction ms rule: rev_induct) (auto simp: first_per_id_snoc)

lemma first_per_id_of_distinct: "distinct (map mid ms) \<Longrightarrow> first_per_id ms = ms"
  by (induction ms rule: rev_induct) (auto simp: first_per_id_snoc)

lemma map_of_buildMessageMap:
  "map_of (buildMessageMap ms) k = find (\<lambda>p. mid p = k) ms"
proof (induction ms rule: rev_induct)
  case Nil
  show ?case by (simp add: buildMessageMap_def)
next
  case (snoc m ms)
  have fa: "find P (xs @ [x]) = (case find P xs of Some y \<Rightarrow> Some y | None \<Rightarrow> if P x then Some x else None)"
    for P and xs :: "ChatMessage list" and x
    by (induction xs) auto
  show ?case
    using snoc by (auto simp: buildMessageMap_snoc fa map_add_def split: option.splits)
qed

lemma has_buildMessageMap:
  "map_of (buildMessageMap ms) k = None \<longleftrightarrow> k \<notin> mid ` set ms"
  by (simp add: map_of_eq_None_iff buildMessageMap_eq image_image first_per_id_ids)

lemma updated_loop:
  assumes "distinct (map fst kvs)" "fst ` set um \<inter> fst ` set kvs = {}"
  shows "foldl (\<lambda>um (i, message). if C i message then AList.update i message um else um) um kvs
         = um @ filter (\<lambda>(i, message). C i message) kvs"
  using assms
proof (induction kvs arbitrary: um)
  case Nil
  show ?case by simp
next
  case (Cons kv kvs)
  obtain i message where kv: "kv = (i, message)" by (cases kv)
  have absent: "i \<notin> fst ` set um" using Cons.prems kv by auto
  show ?case
  proof (cases "C i message")
    case True
    have "fst ` set (um @ [(i, message)]) \<inter> fst ` set kvs = {}"
      using Cons.prems kv by auto
    then show ?thesis
      using Cons.IH [of "um @ [(i, message)]"] Cons.prems kv True absent
      by (simp add: update_absent)
  next
    case False
    have "fst ` set um \<inter> fst ` set kvs = {}" using Cons.prems by auto
    then show ?thesis using Cons.IH [of um] Cons.prems kv False by simp
  qed
qed

lemma diffMessages_eq:
  "diffMessages previous nxt ex =
     \<lparr>added = filter (\<lambda>m. mid m \<notin> mid ` set previous) (first_per_id nxt),
      updated = filter (is_updated previous ex) (first_per_id nxt),
      removed = map mid (filter (\<lambda>m. mid m \<notin> mid ` set nxt) (first_per_id previous))\<rparr>"
proof -
  let ?C = "\<lambda>i message. if i \<in> set (map target_id ex) then True
             else (case map_of (buildMessageMap previous) i of
                     Some previousMessage \<Rightarrow> ref previousMessage \<noteq> ref message | None \<Rightarrow> False)"
  have loop_form: "(\<lambda>um (i, message).
                     if i \<in> set (map target_id ex) then AList.update i message um
                     else (case map_of (buildMessageMap previous) i of
                             Some previousMessage \<Rightarrow>
                               if ref previousMessage \<noteq> ref message
                               then AList.update i message um else um
                           | None \<Rightarrow> um))
      = (\<lambda>um (i, message). if ?C i message then AList.update i message um else um)"
    by (auto simp: fun_eq_iff split: option.splits)
  have d: "distinct (map fst (buildMessageMap nxt))"
    using first_per_id_distinct [of nxt] by (simp add: buildMessageMap_eq comp_def)
  have upd: "foldl (\<lambda>um (i, message). if ?C i message then AList.update i message um else um) []
               (buildMessageMap nxt)
            = filter (\<lambda>(i, message). ?C i message) (buildMessageMap nxt)"
    using updated_loop [OF d, of "[]" ?C] by simp
  have u: "map snd (filter (\<lambda>(i, message). ?C i message) (buildMessageMap nxt))
            = filter (is_updated previous ex) (first_per_id nxt)"
    apply (simp add: buildMessageMap_eq filter_map comp_def is_updated_def map_of_buildMessageMap
        [unfolded buildMessageMap_eq] cong: filter_cong option.case_cong)
    apply (rule filter_cong)
     apply auto
    done
  have a: "map snd (filter (\<lambda>(i, message). map_of (buildMessageMap previous) i = None) (buildMessageMap nxt))
            = filter (\<lambda>m. mid m \<notin> mid ` set previous) (first_per_id nxt)"
    by (simp add: has_buildMessageMap) (simp add: buildMessageMap_eq filter_map comp_def)
  have r: "map fst (filter (\<lambda>(i, message). map_of (buildMessageMap nxt) i = None) (buildMessageMap previous))
            = map mid (filter (\<lambda>m. mid m \<notin> mid ` set nxt) (first_per_id previous))"
    by (simp add: has_buildMessageMap) (simp add: buildMessageMap_eq filter_map comp_def)
  show ?thesis
    unfolding diffMessages_def Let_def loop_form upd u a r ..
qed

lemma find_snoc:
  "find P (xs @ [x]) = (case find P xs of Some y \<Rightarrow> Some y | None \<Rightarrow> if P x then Some x else None)"
  by (induction xs) auto

lemma find_first_per_id:
  "m \<in> set (first_per_id ms) \<Longrightarrow> find (\<lambda>p. mid p = mid m) ms = Some m"
proof (induction ms rule: rev_induct)
  case Nil
  then show ?case by simp
next
  case (snoc x xs)
  show ?case
  proof (cases "m \<in> set (first_per_id xs)")
    case True
    then show ?thesis using snoc.IH by (simp add: find_snoc)
  next
    case False
    then have mx: "m = x" and new: "mid x \<notin> mid ` set xs"
      using snoc.prems by (auto simp: first_per_id_snoc split: if_splits)
    have "\<And>p. p \<in> set xs \<Longrightarrow> mid p \<noteq> mid x"
      using new by (metis imageI)
    then have "find (\<lambda>p. mid p = mid x) xs = None"
      by (simp add: find_None_iff)
    then show ?thesis using mx by (simp add: find_snoc)
  qed
qed




text \<open>On snapshots whose turns have distinct ids the added turns are as the claim states them.\<close>

lemma diffMessages_added_distinct_ids:
  "distinct (map mid nxt) \<Longrightarrow> added (diffMessages previous nxt ex) = claimed_added previous nxt"
  by (simp add: diffMessages_eq first_per_id_of_distinct claimed_added_def)

subsection \<open>cancel and subscribe\<close>

text \<open>
  C8 (as amended). \<open>cancel()\<close> flips the cancellation flag of the operation in flight, if
  the session holds a token, and discards the token reference; in every case, in flight
  or not, it clears the busy flag and the promise, records the user-cancellation error
  and emits a session-info notification (which reports the session as inactive).
\<close>

theorem cancel_effect:
  "cancel s =
     s\<lparr>token_heap := (case cancellationToken s of
                        Some t \<Rightarrow> (token_heap s)[t := True] | None \<Rightarrow> token_heap s),
       cancellationToken := None,
       busy := False,
       queryPromise := None,
       error := Some ''Operation cancelled by user'',
       emitted := emitted s @ [SessionInfo (claudeSessionId s) (messageCount s) False]\<rparr>"
  by (cases "cancellationToken s")
     (simp_all add: cancel_def emitSessionInfo_def noticeSubscribers_def Let_def)

text \<open>A session whose send has begun: the token of the operation is flipped.\<close>

theorem cancel_effect_witness:
  "cancel ((new_Session example_rt)\<lparr>queryPromise := Some 1, cancellationToken := Some 0,
                                     token_heap := [False], busy := True\<rparr>)
   = (new_Session example_rt)\<lparr>queryPromise := None, cancellationToken := None,
        token_heap := [True], busy := False, error := Some ''Operation cancelled by user'',
        emitted := [SessionInfo None 0 False]\<rparr>"
  using cancel_effect [of "(new_Session example_rt)\<lparr>queryPromise := Some 1,
      cancellationToken := Some 0, token_heap := [False], busy := True\<rparr>"]
  by (simp add: new_Session_def)

text \<open>
  The claim as stated fails on a new session, where nothing is in flight: \<open>cancel()\<close>
  is not a no-op there, it records the error and emits a session-info notification.
\<close>

theorem cancel_idle_counterexample:
  "\<not> in_flight (new_Session example_rt)
   \<and> cancel (new_Session example_rt) \<noteq> new_Session example_rt
   \<and> error (cancel (new_Session example_rt)) = Some ''Operation cancelled by user''
   \<and> emitted (cancel (new_Session example_rt)) = [SessionInfo None 0 False]"
proof -
  have "error (cancel (new_Session example_rt)) \<noteq> error (new_Session example_rt)"
    by (simp add: cancel_def emitSessionInfo_def noticeSubscribers_def Let_def new_Session_def)
  then have "cancel (new_Session example_rt) \<noteq> new_Session example_rt"
    by auto
  then show ?thesis
    by (simp add: cancel_def emitSessionInfo_def noticeSubscribers_def Let_def in_flight_def
        new_Session_def)
qed





subsection \<open>Aggregates\<close>

lemma usageData_noticeSubscribers [simp]: "usageData (noticeSubscribers e s) = usageData s"
  by (simp add: noticeSubscribers_def)

lemma usageData_updateTodosState [simp]: "usageData (updateTodosState ts s) = usageData s"
  by (simp add: updateTodosState_def Let_def emitTodosUpdate_def)

lemma usageData_updateToolsState [simp]: "usageData (updateToolsState ts s) = usageData s"
  by (simp add: updateToolsState_def Let_def emitToolsUpdate_def)

lemma usageData_handle_block [simp]: "usageData (handle_block s b) = usageData s"
  by (cases b) (simp_all split: option.splits)

lemma usageData_handle_blocks [simp]: "usageData (foldl handle_block s bs) = usageData s"
  by (induction bs arbitrary: s) simp_all

lemma usageData_set_usageData [simp]: "usageData (set_usageData v s) = v"
  by (simp add: set_usageData_def Let_def)


lemma foldl_notice:
  "foldl (\<lambda>st x. noticeSubscribers (K (claudeSessionId st) x) st) s xs
     = s\<lparr>emitted := emitted s @ map (K (claudeSessionId s)) xs\<rparr>"
  by (induction xs arbitrary: s) (simp_all add: noticeSubscribers_def)

lemma claudeSessionId_noticeSubscribers [simp]:
  "claudeSessionId (noticeSubscribers e s) = claudeSessionId s"
  by (simp add: noticeSubscribers_def)

lemma foldl_notify_tool_update:
  "foldl (notify_tool_update nextMap) s us
     = s\<lparr>emitted := emitted s @ tool_events nextMap (claudeSessionId s) us\<rparr>"
proof (induction us arbitrary: s)
  case Nil
  show ?case by (simp add: tool_events_def)
next
  case (Cons u us)
  let ?s1 = "notify_tool_update nextMap s u"
  have "foldl (notify_tool_update nextMap) s (u # us) = foldl (notify_tool_update nextMap) ?s1 us"
    by simp
  also have "\<dots> = ?s1\<lparr>emitted := emitted ?s1 @ tool_events nextMap (claudeSessionId ?s1) us\<rparr>"
    by (rule Cons.IH)
  also have "\<dots> = s\<lparr>emitted := emitted s @ tool_events nextMap (claudeSessionId s) (u # us)\<rparr>"
    by (cases "map_of nextMap (target_id (tru_message u))")
       (simp_all add: notify_tool_update_def noticeSubscribers_def tool_events_def)
  finally show ?case .
qed

lemma applyMessageUpdates_eq:
  "applyMessageUpdates previous nxt ar s =
     s\<lparr>messages := nxt, messageCount := length nxt,
       emitted := emitted s
         @ map (MessageRemoved (claudeSessionId s)) (removed (diffMessages previous nxt (updatedMessages ar)))
         @ map (MessageAdded (claudeSessionId s)) (added (diffMessages previous nxt (updatedMessages ar)))
         @ map (MessageUpdated (claudeSessionId s)) (updated (diffMessages previous nxt (updatedMessages ar)))
         @ tool_events (buildMessageMap nxt) (claudeSessionId s) (toolResultUpdates ar)
         @ [SessionInfo (claudeSessionId s) (length nxt) (queryPromise s \<noteq> None)]\<rparr>"
  unfolding applyMessageUpdates_def Let_def foldl_notice [of MessageRemoved]
    foldl_notice [of MessageAdded] foldl_notice [of MessageUpdated] foldl_notify_tool_update
  by (simp add: emitSessionInfo_def noticeSubscribers_def)




subsection \<open>The tool-result linker\<close>

lemma scan_any_None: "\<not> list_ex (is_tool_use_with_id X) ps \<Longrightarrow> scan_any X ps j = None"
  by (induction ps arbitrary: j) auto

lemma scan_unanswered_None: "\<not> list_ex (is_tool_use_with_id X) ps \<Longrightarrow> scan_unanswered X ps j = None"
  by (induction ps arbitrary: j) auto

lemma first_pass_None:
  "\<not> has_invocation ms X \<Longrightarrow> n \<le> length ms \<Longrightarrow> first_pass ms X n = None"
proof (induction n)
  case 0
  show ?case by simp
next
  case (Suc n)
  then have "mtype (ms ! n) = Assistant \<Longrightarrow> \<not> list_ex (is_tool_use_with_id X) (parts (ms ! n))"
    by (auto simp: has_invocation_def list_ex_iff)
  then show ?case using Suc by (auto simp: Let_def scan_unanswered_None)
qed

lemma fallback_pass_None:
  "\<not> has_invocation ms X \<Longrightarrow> n \<le> length ms \<Longrightarrow> fallback_pass ms X n = None"
proof (induction n)
  case 0
  show ?case by simp
next
  case (Suc n)
  then have "mtype (ms ! n) = Assistant \<Longrightarrow> \<not> list_ex (is_tool_use_with_id X) (parts (ms ! n))"
    by (auto simp: has_invocation_def list_ex_iff)
  then show ?case using Suc by (auto simp: Let_def scan_any_None)
qed

lemma findMostRecentToolUse_None:
  "\<not> has_invocation ms X \<Longrightarrow> findMostRecentToolUse ms X = None"
  by (simp add: findMostRecentToolUse_def first_pass_None fallback_pass_None)

lemma link_block_unmatched:
  "\<not> answers_invocation ms block \<Longrightarrow> link_block (ms, upd, trs) block = (ms, upd, trs)"
  by (cases block) (simp_all add: answers_invocation_def findMostRecentToolUse_None)

lemma link_blocks_unmatched:
  "list_all (\<lambda>b. \<not> answers_invocation ms b) bs \<Longrightarrow> link_blocks (ms, upd, trs) bs = (ms, upd, trs)"
  by (induction bs) (simp_all add: link_block_unmatched)

lemma render_user:
  "createChatMessageFromSDKMessage rt fr (SDKUser h (BlockContent bs)) = Some (rendered_user rt fr h bs)"
  by (simp add: rendered_user_def extractMessageUuid_def extractMessageTimestamp_def extractTimestamp_def)

lemma invocation_key:
  "has_invocation ms X \<longleftrightarrow>
     (\<exists>tc \<in> set (map (\<lambda>m. (mtype m, map content (parts m))) ms).
         fst tc = Assistant \<and> (\<exists>c \<in> set (snd tc). case c of ToolUse i n inp \<Rightarrow> i = X | _ \<Rightarrow> False))"
  by (auto simp: has_invocation_def list_ex_iff is_tool_use_with_id_def)

lemma key_set_result_at:
  "map (\<lambda>m. (mtype m, map content (parts m))) (set_result_at ms t r)
     = map (\<lambda>m. (mtype m, map content (parts m))) ms"
proof (cases t)
  case (Pair i j)
  show ?thesis
  proof (cases "i < length ms")
    case False
    then have "ms[i := y] = ms" for y by (simp add: list_update_beyond)
    then show ?thesis using Pair by (simp add: set_result_at_def)
  next
    case True
    have "map content ((parts (ms ! i))[j := setToolResult r (parts (ms ! i) ! j)]) = map content (parts (ms ! i))"
      by (cases "j < length (parts (ms ! i))")
         (simp_all add: map_update setToolResult_def list_update_same_conv list_update_beyond)
    then show ?thesis
      using Pair True by (simp add: set_result_at_def map_update list_update_same_conv)
  qed
qed

lemma has_invocation_set_result_at:
  "has_invocation (set_result_at ms t r) X = has_invocation ms X"
  by (simp only: invocation_key key_set_result_at)

lemma answers_link_block:
  "answers_invocation (fst (link_block (ms, upd, trs) block)) b = answers_invocation ms b"
  by (cases block; cases b)
     (simp_all add: answers_invocation_def has_invocation_set_result_at split: option.splits)

lemma link_blocks_only_matched:
  "link_blocks (ms, upd, trs) bs = link_blocks (ms, upd, trs) (filter (answers_invocation ms) bs)"
proof (induction bs arbitrary: ms upd trs)
  case Nil
  show ?case by simp
next
  case (Cons b bs)
  obtain ms' upd' trs' where step: "link_block (ms, upd, trs) b = (ms', upd', trs')"
    by (cases "link_block (ms, upd, trs) b") auto
  have same: "answers_invocation ms' = answers_invocation ms"
    using answers_link_block [of ms upd trs b] step by (simp add: fun_eq_iff)
  show ?case
  proof (cases "answers_invocation ms b")
    case True
    then show ?thesis using Cons.IH [of ms' upd' trs'] step same by simp
  next
    case False
    then show ?thesis using Cons.IH [of ms upd trs] by (simp add: link_block_unmatched)
  qed
qed

lemma coalesce_runs_snoc:
  "\<not> P x \<Longrightarrow> coalesce_runs P mk k (ms @ [x]) = coalesce_runs P mk k ms @ [x]"
proof (induction P mk k ms rule: coalesce_runs.induct)
  case (1 P mk k)
  then show ?case by simp
next
  case (2 P mk k m ms)
  have tw: "takeWhile P (ms @ [x]) = takeWhile P ms"
    using "2.prems" by (simp add: takeWhile_tail)
  have dw: "dropWhile P (ms @ [x]) = dropWhile P ms @ [x]"
    using "2.prems" by (simp add: dropWhile_append3)
  show ?case
  proof (cases "P m \<and> 2 \<le> length (m # takeWhile P ms)")
    case True
    then show ?thesis using "2.IH"(1) "2.prems" tw dw by simp
  next
    case False
    then show ?thesis using "2.IH"(2) "2.prems" tw by auto
  qed
qed

lemma read_predicate_user: "\<not> read_predicate (rendered_user rt fr h bs)"
  by (simp add: read_predicate_def isReadToolUse_def rendered_user_def)

lemma coalesce_snoc_user:
  "coalesceReadMessages rt fresh (ms @ [rendered_user rt fr h bs])
     = coalesceReadMessages rt fresh ms @ [rendered_user rt fr h bs]"
  by (simp add: coalesceReadMessages_eq_runs coalesce_runs_snoc read_predicate_user)

lemma diffMessages_append_new:
  "diffMessages ms (ms @ [r]) [] =
     \<lparr>added = (if mid r \<in> mid ` set ms then [] else [r]), updated = [], removed = []\<rparr>"
proof -
  have not_upd: "\<not> is_updated ms [] m" if "m \<in> set (first_per_id ms)" for m
    using find_first_per_id [OF that] by (simp add: is_updated_def)
  have old_add: "filter (\<lambda>m. mid m \<notin> mid ` set ms) (first_per_id ms) = []"
    using first_per_id_subset [of ms] by (auto simp: filter_empty_conv)
  have old_upd: "filter (is_updated ms []) (first_per_id ms) = []"
    using not_upd by (simp add: filter_empty_conv)
  have new_upd: "\<not> is_updated ms [] r" if "mid r \<notin> mid ` set ms"
  proof -
    have "\<And>p. p \<in> set ms \<Longrightarrow> mid p \<noteq> mid r" using that by (metis imageI)
    then have "find (\<lambda>p. mid p = mid r) ms = None" by (simp add: find_None_iff)
    then show ?thesis by (simp add: is_updated_def)
  qed
  have rem: "filter (\<lambda>m. mid m \<notin> mid ` set (ms @ [r])) (first_per_id ms) = []"
    using first_per_id_subset [of ms] by (auto simp: filter_empty_conv)
  show ?thesis
    using old_add old_upd new_upd rem
    by (simp add: diffMessages_eq first_per_id_snoc)
qed

lemma filter_tool_result_updated [simp]:
  "filter is_tool_result_updated (map (MessageRemoved sid) xs) = []"
  "filter is_tool_result_updated (map (MessageAdded sid) ys) = []"
  "filter is_tool_result_updated (map (MessageUpdated sid) ys) = []"
  by (simp_all add: filter_empty_conv)

text \<open>
  C10. The linking loop of \<open>appendRenderableMessage\<close> does what it would do on the result
  blocks that answer an invocation of the history alone: a result block whose id matches
  no invocation part of any assistant turn changes nothing and raises nothing. When no
  block of an incoming user fragment answers an invocation, no turn of the history is
  mutated, no turn is reported as updated, no tool-result update is reported, and the
  fragment is rendered and appended as a new turn; processing the fragment in the
  session then emits no tool-result notification and, the history being one that the
  coalescer leaves as it is (every history the session itself has stored), no
  message-updated notification: it emits the message-added notification of the new turn
  (when its id is new) and the session-info notification.
\<close>

theorem unmatched_result_dropped:
  "link_blocks (ms, [], []) bs = link_blocks (ms, [], []) (filter (answers_invocation ms) bs)
   \<and> (no_block_answers ms bs \<longrightarrow>
        appendRenderableMessage rt fr ms (SDKUser h (BlockContent bs))
          = (ms @ [rendered_user rt fr h bs],
             \<lparr>addedMessage = Some (rendered_user rt fr h bs), updatedMessages = [],
              toolResultUpdates = []\<rparr>)
        \<and> (messages s = ms \<longrightarrow>
             filter is_tool_result_updated
               (emitted_since s (processIncomingMessage rt fr fresh (SDKUser h (BlockContent bs)) s)) = []
             \<and> (coalesceReadMessages rt fresh ms = ms \<longrightarrow>
                  messages (processIncomingMessage rt fr fresh (SDKUser h (BlockContent bs)) s)
                    = ms @ [rendered_user rt fr h bs]
                  \<and> emitted (processIncomingMessage rt fr fresh (SDKUser h (BlockContent bs)) s)
                    = emitted s
                      @ (if mid (rendered_user rt fr h bs) \<in> mid ` set ms then []
                         else [MessageAdded (claudeSessionId s) (rendered_user rt fr h bs)])
                      @ [SessionInfo (claudeSessionId s) (Suc (length ms)) (queryPromise s \<noteq> None)])))"
proof -
  let ?r = "rendered_user rt fr h bs"
  let ?m = "SDKUser h (BlockContent bs)"
  have general: "link_blocks (ms, [], []) bs = link_blocks (ms, [], []) (filter (answers_invocation ms) bs)"
    by (rule link_blocks_only_matched)
  have linker: "appendRenderableMessage rt fr ms ?m
      = (ms @ [?r], \<lparr>addedMessage = Some ?r, updatedMessages = [], toolResultUpdates = []\<rparr>)"
    if "no_block_answers ms bs"
    using that by (simp add: no_block_answers_def appendRenderableMessage_def link_blocks_unmatched render_user del: createChatMessageFromSDKMessage.simps)
  have events: "emitted (processIncomingMessage rt fr fresh ?m s)
      = emitted s
        @ map (MessageRemoved (claudeSessionId s)) (removed (diffMessages ms (coalesceReadMessages rt fresh ms @ [?r]) []))
        @ map (MessageAdded (claudeSessionId s)) (added (diffMessages ms (coalesceReadMessages rt fresh ms @ [?r]) []))
        @ map (MessageUpdated (claudeSessionId s)) (updated (diffMessages ms (coalesceReadMessages rt fresh ms @ [?r]) []))
        @ [SessionInfo (claudeSessionId s) (Suc (length (coalesceReadMessages rt fresh ms))) (queryPromise s \<noteq> None)]"
     and msgs: "messages (processIncomingMessage rt fr fresh ?m s) = coalesceReadMessages rt fresh ms @ [?r]"
    if "no_block_answers ms bs" "messages s = ms"
    using that linker
    by (simp_all add: processIncomingMessage_def Let_def applyMessageUpdates_eq coalesce_snoc_user
        tool_events_def)
  show ?thesis
    using general linker events msgs
    by (auto simp: emitted_since_def diffMessages_append_new)
qed

theorem unmatched_result_dropped_witness:
  "no_block_answers (messages one_turn_session) [orphan_result]
   \<and> coalesceReadMessages example_rt example_fresh (messages one_turn_session)
       = messages one_turn_session
   \<and> appendRenderableMessage example_rt (example_fresh 0) (messages one_turn_session)
        (SDKUser orphan_header (BlockContent [orphan_result]))
       = ([read_turn 1 ''t1'' ''a.txt'',
           \<lparr>ref = 100, mtype = User, parts = [\<lparr>content = orphan_result, toolResultData = None\<rparr>],
            timestamp = 9, mid = ''u9''\<rparr>],
          \<lparr>addedMessage = Some \<lparr>ref = 100, mtype = User,
                parts = [\<lparr>content = orphan_result, toolResultData = None\<rparr>],
                timestamp = 9, mid = ''u9''\<rparr>,
           updatedMessages = [], toolResultUpdates = []\<rparr>)
   \<and> emitted (processIncomingMessage example_rt (example_fresh 0) example_fresh
         (SDKUser orphan_header (BlockContent [orphan_result])) one_turn_session)
       = [MessageAdded None \<lparr>ref = 100, mtype = User,
             parts = [\<lparr>content = orphan_result, toolResultData = None\<rparr>],
             timestamp = 9, mid = ''u9''\<rparr>,
          SessionInfo None 2 False]"
proof -
  have none: "no_block_answers (messages one_turn_session) [orphan_result]"
    by (simp add: no_block_answers_def answers_invocation_def has_invocation_def orphan_result_def
        one_turn_session_def new_Session_def read_turn_def is_tool_use_with_id_def)
  have stable: "coalesceReadMessages example_rt example_fresh (messages one_turn_session)
      = messages one_turn_session"
    by (simp add: coalesceReadMessages_eq_runs one_turn_session_def new_Session_def)
  have rendered: "rendered_user example_rt (example_fresh 0) orphan_header [orphan_result]
      = \<lparr>ref = 100, mtype = User, parts = [\<lparr>content = orphan_result, toolResultData = None\<rparr>],
         timestamp = 9, mid = ''u9''\<rparr>"
    by (simp add: rendered_user_def example_fresh_def orphan_header_def newChatMessagePart_def
        or_now_def extractTimestamp_def)
  have msgs: "messages one_turn_session = [read_turn 1 ''t1'' ''a.txt'']"
    by (simp add: one_turn_session_def new_Session_def)
  have fields: "emitted one_turn_session = []" "claudeSessionId one_turn_session = None"
    "queryPromise one_turn_session = None"
    by (simp_all add: one_turn_session_def new_Session_def)
  have new_id: "mid (read_turn r ''t1'' p) = ''m-t1''" for r p
    by (simp add: read_turn_def)
  show ?thesis
    using none stable
      unmatched_result_dropped [of "messages one_turn_session" "[orphan_result]" example_rt
        "example_fresh 0" orphan_header one_turn_session example_fresh]
    by (simp add: rendered msgs fields new_id)
qed

lemma indices_Cons:
  "[j \<leftarrow> [0..<length (p # ps)]. Q ((p # ps) ! j)]
     = (if Q p then [0] else []) @ map Suc [j \<leftarrow> [0..<length ps]. Q (ps ! j)]"
proof -
  have "[0..<length (p # ps)] = 0 # map Suc [0..<length ps]"
    by (simp add: upt_conv_Cons map_Suc_upt del: upt_Suc)
  then show ?thesis by (simp add: filter_map comp_def del: upt_Suc)
qed

lemma scan_any_indices:
  "scan_any X ps k =
     (case [j \<leftarrow> [0..<length ps]. is_tool_use_with_id X (ps ! j)] of
        [] \<Rightarrow> None | j # rest \<Rightarrow> Some (j + k))"
proof (induction ps arbitrary: k)
  case Nil
  show ?case by simp
next
  case (Cons p ps)
  show ?case
    unfolding indices_Cons [of "is_tool_use_with_id X" p ps]
    by (simp add: Cons.IH split: list.splits)
qed

lemma scan_unanswered_indices:
  "scan_unanswered X ps k =
     (case [j \<leftarrow> [0..<length ps]. is_tool_use_with_id X (ps ! j)] of
        [] \<Rightarrow> None
      | j # rest \<Rightarrow> if toolResult (ps ! j) = None then Some (j + k) else None)"
proof (induction ps arbitrary: k)
  case Nil
  show ?case by simp
next
  case (Cons p ps)
  show ?case
    unfolding indices_Cons [of "is_tool_use_with_id X" p ps]
    by (auto simp: Cons.IH split: list.splits)
qed

lemma length_filter_indices:
  "length [j \<leftarrow> [0..<length ps]. Q (ps ! j)] = length (filter Q ps)"
proof -
  have "map ((!) ps) [j \<leftarrow> [0..<length ps]. Q (ps ! j)] = filter Q (map ((!) ps) [0..<length ps])"
    by (simp add: filter_map comp_def)
  then have "map ((!) ps) [j \<leftarrow> [0..<length ps]. Q (ps ! j)] = filter Q ps"
    by (simp add: map_nth)
  then show ?thesis by (metis length_map)
qed

lemma concat_if_singleton:
  "concat (map (\<lambda>j. if Q j then [(i, j)] else []) xs) = map (Pair i) (filter Q xs)"
  by (induction xs) auto

lemma scan_any_matching:
  "scan_any X ps 0 = (case matching_in X ps of [] \<Rightarrow> None | j # rest \<Rightarrow> Some j)"
  by (simp add: scan_any_indices matching_in_def split: list.splits)

lemma scan_unanswered_pending:
  assumes "length (filter (is_tool_use_with_id X) ps) \<le> 1"
  shows "scan_unanswered X ps 0 = (case pending_in X ps of [] \<Rightarrow> None | j # rest \<Rightarrow> Some j)"
proof -
  let ?M = "[j \<leftarrow> [0..<length ps]. is_tool_use_with_id X (ps ! j)]"
  have split: "pending_in X ps = filter (\<lambda>j. toolResult (ps ! j) = None) ?M"
    by (simp add: pending_in_def conj_commute)
  have "length ?M \<le> 1"
    using assms by (simp add: length_filter_indices)
  then consider "?M = []" | j where "?M = [j]"
    by (cases ?M) (auto simp: le_Suc_eq)
  then show ?thesis
  proof cases
    case 1
    then show ?thesis using split by (simp add: scan_unanswered_indices)
  next
    case 2
    then show ?thesis using split by (simp add: scan_unanswered_indices)
  qed
qed

lemma unanswered_parts_upto: "unanswered_parts ms X = pending_upto ms X (length ms)"
  by (simp add: unanswered_parts_def pending_upto_def pending_in_def concat_if_singleton
      cong: if_cong)

lemma matching_parts_upto: "matching_parts ms X = matching_upto ms X (length ms)"
  by (simp add: matching_parts_def matching_upto_def matching_in_def concat_if_singleton
      cong: if_cong)

lemma fallback_pass_matching:
  "fallback_pass ms X n = (case matching_upto ms X n of [] \<Rightarrow> None | t # rest \<Rightarrow> Some t)"
proof (induction n)
  case 0
  show ?case by (simp add: matching_upto_def)
next
  case (Suc n)
  have unfold: "matching_upto ms X (Suc n) =
      (if mtype (ms ! n) = Assistant then map (Pair n) (matching_in X (parts (ms ! n))) else [])
      @ matching_upto ms X n"
    by (simp add: matching_upto_def)
  show ?case
    unfolding unfold
    by (cases "matching_in X (parts (ms ! n))")
       (simp_all add: Suc.IH Let_def scan_any_matching)
qed

lemma first_pass_pending:
  "one_invocation_per_turn ms X \<Longrightarrow> n \<le> length ms \<Longrightarrow>
   first_pass ms X n = (case pending_upto ms X n of [] \<Rightarrow> None | t # rest \<Rightarrow> Some t)"
proof (induction n)
  case 0
  show ?case by (simp add: pending_upto_def)
next
  case (Suc n)
  have unfold: "pending_upto ms X (Suc n) =
      (if mtype (ms ! n) = Assistant then map (Pair n) (pending_in X (parts (ms ! n))) else [])
      @ pending_upto ms X n"
    by (simp add: pending_upto_def)
  have one: "length (filter (is_tool_use_with_id X) (parts (ms ! n))) \<le> 1"
    using Suc.prems by (simp add: one_invocation_per_turn_def list_all_length)
  have IH: "first_pass ms X n = (case pending_upto ms X n of [] \<Rightarrow> None | t # rest \<Rightarrow> Some t)"
    using Suc by simp
  show ?case
    unfolding unfold
    by (cases "pending_in X (parts (ms ! n))")
       (simp_all add: IH Let_def scan_unanswered_pending [OF one])
qed

lemma findMostRecentToolUse_claimed:
  "one_invocation_per_turn ms X \<Longrightarrow> findMostRecentToolUse ms X = claimed_target ms X"
  by (simp add: findMostRecentToolUse_def claimed_target_def first_pass_pending
      fallback_pass_matching unanswered_parts_upto matching_parts_upto split: list.splits)

text \<open>
  C1. The claim: when some invocation part with the id, in an assistant turn, has an
  empty result slot, the result is attached to the first such part of the scan (turns
  newest first, parts in order). The code does so on every history in which no turn has
  two invocation parts with the id (\<open>findMostRecentToolUse_claimed\<close>), and not on the
  turn below: its first part with the id is answered, so the first pass leaves the turn
  at the \<open>break\<close> without looking at the second part, which is unanswered; the fallback
  pass then overwrites the result of the first part and the second part stays without
  a result.
\<close>

theorem findMostRecentToolUse_skips_pending_part:
  "claimed_target [twice_invoked_turn] ''X'' = Some (0, 1)
   \<and> findMostRecentToolUse [twice_invoked_turn] ''X'' = Some (0, 0)
   \<and> fst (link_blocks ([twice_invoked_turn], [], []) [ToolResult late_result])
       = [twice_invoked_turn\<lparr>parts := [answered_part\<lparr>toolResultData := Some late_result\<rparr>, pending_part]\<rparr>]"
proof -
  have claimed: "claimed_target [twice_invoked_turn] ''X'' = Some (0, 1)"
    by (simp add: claimed_target_def unanswered_parts_def twice_invoked_turn_def answered_part_def
        pending_part_def is_tool_use_with_id_def toolResult_def upt_rec)
  have code: "findMostRecentToolUse [twice_invoked_turn] ''X'' = Some (0, 0)"
    by (simp add: findMostRecentToolUse_def twice_invoked_turn_def answered_part_def
        pending_part_def is_tool_use_with_id_def toolResult_def)
  show ?thesis
    using claimed code
    by (simp add: set_result_at_def setToolResult_def late_result_def twice_invoked_turn_def)
qed

subsection \<open>Bulk load\<close>

lemma quietly_refl: "isLoading s \<Longrightarrow> quietly s s"
  by (simp add: quietly_def)


lemma quietly_notice:
  "isLoading s \<Longrightarrow> \<not> is_state_update e \<Longrightarrow> quietly s (noticeSubscribers e s)"
  by (simp add: quietly_def noticeSubscribers_def)

lemma quietly_same:
  "isLoading s' \<Longrightarrow> emitted s' = emitted s \<Longrightarrow> quietly s s'"
  by (simp add: quietly_def)






























subsection \<open>send\<close>

lemma queryPromise_send_begin [simp]:
  "queryPromise (send_begin rt fr fresh p u prompt blocks s) = Some p"
  by (simp add: send_begin_def Let_def)

lemma queryPromise_send_finally [simp]:
  "queryPromise (send_finally s) = None"
  by (simp add: send_finally_def emitSessionInfo_def noticeSubscribers_def)

text \<open>
  C7. The claim: no two sends of one session are in flight at once, and a send that finds
  another in flight waits for it and then proceeds, none being abandoned. The code
  waits with \<open>if (this.queryPromise) await this.queryPromise\<close>, once and outside every
  \<open>try\<close>. With three calls in a row, the second and third callers wait for the promise of
  the first; when it is fulfilled the second begins and sets \<open>queryPromise\<close>, and the
  third, resumed after its \<open>await\<close>, begins too without looking at \<open>queryPromise\<close> again:
  callers 2 and 3 read their streams at the same time. And when the stream of a send
  fails, its promise is rejected, so the \<open>await\<close> of a waiting caller throws and that
  caller never sends.
\<close>

theorem send_overlap:
  "map_option streaming (send_run example_rt example_fresh example_fresh idle_scheduler three_calls_trace)
     = Some [2, 3]
   \<and> map_option phases (send_run example_rt example_fresh example_fresh idle_scheduler failed_send_trace)
     = Some [(1, Returned), (2, Rejected)]"
  by (simp add: three_calls_trace_def failed_send_trace_def idle_scheduler_def begin_caller_def
      new_Session_def streaming_def)

end
